theory Spec2Isabelle
  imports Main "HOL-Library.Multiset" "HOL-Library.Monad_Syntax" "HOL-Library.AList"
begin

section \<open>Chinchon rules engine: data model\<close>

text \<open>
  A shallow embedding of the package \<^verbatim>\<open>chinchon\<close> (files \<^verbatim>\<open>chinchon.go\<close>,
  \<^verbatim>\<open>actions.go\<close>, \<^verbatim>\<open>action_draw_card.go\<close>, \<^verbatim>\<open>action_discard_card.go\<close>,
  \<^verbatim>\<open>action_meld_cards.go\<close>).

  Conventions.
  \<^item> Go's \<^verbatim>\<open>int\<close> is modelled by \<^typ>\<open>int\<close>; the values of the type are the integers
    that satisfy \<open>isInt\<close> (64 bits; the 32-bit \<^verbatim>\<open>int\<close> of the TinyGo build of
    \<^verbatim>\<open>main_wasm.go\<close> is not modelled). An \<^verbatim>\<open>int\<close> that counts or sums over the elements of
    a slice (a deadwood total, the points of a round, a round number, an index) cannot
    leave that range, a slice of cards being shorter than \<open>2 ^ 59\<close>, and is computed in
    \<^typ>\<open>int\<close>. The score of a player is a sum over the rounds of a game; it is added with
    the wrap-around of the machine (\<open>wrapInt\<close>).
  \<^item> A function that mutates \<^verbatim>\<open>*GameState\<close> takes the state and returns the new one.
  \<^item> A Go panic (nil dereference of a missing player, index out of range) is the
    value \<open>None\<close> of an outer \<open>option\<close>; an \<^verbatim>\<open>error\<close> result is an inner
    \<open>error option\<close> returned together with the state the call leaves behind.
  \<^item> Pointers held by a state (\<^verbatim>\<open>*Hand\<close>, \<^verbatim>\<open>*Pile\<close>, \<^verbatim>\<open>*RoundLog\<close>, \<^verbatim>\<open>*Meld\<close>,
    \<^verbatim>\<open>*deck\<close>) are never nil once \<^verbatim>\<open>New\<close> has returned and are modelled by the
    values they point to. The map \<^verbatim>\<open>Players\<close> is a partial map, so that a player id
    without an entry is visible as a panic.
  \<^item> The order in which Go's \<^verbatim>\<open>range\<close> visits a map is not specified. For the map
    \<^verbatim>\<open>Players\<close> the order is an explicit argument; for the local grouping maps of the
    meld generator the insertion order is used and the results are only ever read as sets.
\<close>

subsection \<open>Machine integers\<close>

definition isInt :: "int \<Rightarrow> bool" where
  "isInt n \<longleftrightarrow> - (2 ^ 63) \<le> n \<and> n < 2 ^ 63"

definition wrapInt :: "int \<Rightarrow> int" where
  "wrapInt n = (n + 2 ^ 63) mod 2 ^ 64 - 2 ^ 63"

subsection \<open>Cards, piles, melds\<close>

text \<open>
  The declaration of \<^verbatim>\<open>Card\<close> is not part of the given files; its two fields are the ones
  the code reads: \<^verbatim>\<open>card.Number\<close> (an \<^verbatim>\<open>int\<close>) and \<^verbatim>\<open>card.Suit\<close> (a \<^verbatim>\<open>string\<close>, used
  as the key of \<^verbatim>\<open>map[string]bool\<close>). Cards are compared by value (\<^verbatim>\<open>card == meldCard\<close>).
\<close>

record Card =
  Number :: int
  Suit :: string

text \<open>\<^verbatim>\<open>Pile{Cards []Card}\<close>: the top of the pile is the end of the slice.\<close>

type_synonym Pile = "Card list"

definition TopCard :: "Pile \<Rightarrow> Card option" where
  "TopCard p = (if length p = 0 then None else Some (last p))"

definition DrawCard :: "Pile \<Rightarrow> (Card \<times> Pile) option" where
  "DrawCard p = (if length p = 0 then None else Some (last p, butlast p))"

definition AddCard :: "Pile \<Rightarrow> Card \<Rightarrow> Pile" where
  "AddCard p crd = p @ [crd]"

definition IsEmpty :: "Pile \<Rightarrow> bool" where
  "IsEmpty p = (length p = 0)"

type_synonym MeldType = string

definition MeldTypeSet :: MeldType where
  "MeldTypeSet = ''set''"

definition MeldTypeRun :: MeldType where
  "MeldTypeRun = ''run''"

record Meld =
  Type :: MeldType
  Cards :: "Card list"

text \<open>
  \<^verbatim>\<open>calculateDeadwoodPoints\<close>: the cards of all melds are collected first; every card of the
  hand that is not among them adds its number when that is between 1 and 7, and 10 otherwise.
\<close>

definition meldedCards :: "Meld list \<Rightarrow> Card set" where
  "meldedCards melds = set (concat (map Cards melds))"

definition cardPoints :: "Card \<Rightarrow> int" where
  "cardPoints crd = (if Number crd \<ge> 1 \<and> Number crd \<le> 7 then Number crd else 10)"

definition calculateDeadwoodPoints :: "Card list \<Rightarrow> Meld list \<Rightarrow> int" where
  "calculateDeadwoodPoints hand melds =
     foldl (\<lambda>points crd. if crd \<notin> meldedCards melds then points + cardPoints crd else points)
       0 hand"

subsection \<open>Actions\<close>

text \<open>
  \<^verbatim>\<open>act\<close> is the struct embedded in every action; its \<^verbatim>\<open>fmt.Stringer\<close> field is never
  set and never serialized.
\<close>

record act =
  Name :: string
  PlayerID :: int

definition DRAW_FROM_DRAW_PILE :: string where
  "DRAW_FROM_DRAW_PILE = ''draw_from_draw_pile''"

definition DRAW_FROM_DISCARD_PILE :: string where
  "DRAW_FROM_DISCARD_PILE = ''draw_from_discard_pile''"

definition DISCARD_CARD :: string where
  "DISCARD_CARD = ''discard_card''"

definition MELD_CARDS :: string where
  "MELD_CARDS = ''meld_cards''"

definition KNOCK :: string where
  "KNOCK = ''knock''"

definition CONFIRM_ROUND_FINISHED :: string where
  "CONFIRM_ROUND_FINISHED = ''confirm_round_finished''"

text \<open>
  The interface \<^verbatim>\<open>Action\<close> has six implementations. \<^verbatim>\<open>ActionConfirmRoundFinished\<close> is
  built in \<^verbatim>\<open>actions.go\<close> from an \<^verbatim>\<open>act\<close> alone.
\<close>

datatype Action =
    ActionDrawFromDrawPile act
  | ActionDrawFromDiscardPile act
  | ActionDiscardCard act Card
  | ActionMeldCards act "Card list" MeldType
  | ActionKnock act
  | ActionConfirmRoundFinished act

fun act_of :: "Action \<Rightarrow> act" where
  "act_of (ActionDrawFromDrawPile a) = a"
| "act_of (ActionDrawFromDiscardPile a) = a"
| "act_of (ActionDiscardCard a crd) = a"
| "act_of (ActionMeldCards a cards meldType) = a"
| "act_of (ActionKnock a) = a"
| "act_of (ActionConfirmRoundFinished a) = a"

definition GetName :: "Action \<Rightarrow> string" where
  "GetName action = Name (act_of action)"

definition GetPlayerID :: "Action \<Rightarrow> int" where
  "GetPlayerID action = PlayerID (act_of action)"

definition NewActionDrawFromDrawPile :: "int \<Rightarrow> Action" where
  "NewActionDrawFromDrawPile playerID =
     ActionDrawFromDrawPile \<lparr>Name = DRAW_FROM_DRAW_PILE, PlayerID = playerID\<rparr>"

definition NewActionDrawFromDiscardPile :: "int \<Rightarrow> Action" where
  "NewActionDrawFromDiscardPile playerID =
     ActionDrawFromDiscardPile \<lparr>Name = DRAW_FROM_DISCARD_PILE, PlayerID = playerID\<rparr>"

definition NewActionDiscardCard :: "Card \<Rightarrow> int \<Rightarrow> Action" where
  "NewActionDiscardCard crd playerID =
     ActionDiscardCard \<lparr>Name = DISCARD_CARD, PlayerID = playerID\<rparr> crd"

definition NewActionMeldCards :: "Card list \<Rightarrow> MeldType \<Rightarrow> int \<Rightarrow> Action" where
  "NewActionMeldCards cards meldType playerID =
     ActionMeldCards \<lparr>Name = MELD_CARDS, PlayerID = playerID\<rparr> cards meldType"

definition NewActionKnock :: "int \<Rightarrow> Action" where
  "NewActionKnock playerID = ActionKnock \<lparr>Name = KNOCK, PlayerID = playerID\<rparr>"

definition NewActionConfirmRoundFinished :: "int \<Rightarrow> Action" where
  "NewActionConfirmRoundFinished playerID =
     ActionConfirmRoundFinished \<lparr>Name = CONFIRM_ROUND_FINISHED, PlayerID = playerID\<rparr>"

subsection \<open>Errors\<close>

text \<open>
  The three sentinel errors of \<^verbatim>\<open>chinchon.go\<close>, the error \<^verbatim>\<open>RunAction\<close> wraps around a
  failure of \<^verbatim>\<open>action.Run\<close> ("... after checking it was possible"), the anonymous error
  "unknown action" of \<^verbatim>\<open>DeserializeAction\<close>, and the errors of \<^verbatim>\<open>json.Unmarshal\<close>.
\<close>

datatype error =
    errActionNotPossible
  | errGameIsEnded
  | errNotYourTurn
  | errAfterChecking error
  | errUnknownAction
  | errUnmarshal

subsection \<open>Action codec\<close>

text \<open>
  \<^verbatim>\<open>SerializeAction\<close> is \<^verbatim>\<open>json.Marshal\<close> of the action and \<^verbatim>\<open>DeserializeAction\<close> calls
  \<^verbatim>\<open>json.Unmarshal\<close> twice. The byte syntax of JSON is the library's business; the codec is
  modelled on JSON values, with what \<^verbatim>\<open>encoding/json\<close> does to the values of the package:

  \<^item> A number literal without fraction and exponent is \<open>JNumber\<close> of its value, any other
    number literal is \<open>JFloat\<close>. An \<^verbatim>\<open>int\<close> field accepts the former when the value is an
    \<^verbatim>\<open>int\<close> (64 bits).
  \<^item> A Go string is a sequence of bytes, here a \<^typ>\<open>string\<close>. Writing a string and reading a
    string literal both replace every byte that does not begin a well-formed UTF-8
    sequence by U+FFFD (\<open>coerceUTF8\<close>).
  \<^item> An object keeps its members in order. Decoding into a struct visits the members in
    that order; a member belongs to a field when its name equals the field's name up to
    letter case (\<open>foldName\<close>), other members are skipped. The value is decoded into the
    field as it stands: \<^verbatim>\<open>null\<close> leaves a string, an \<^verbatim>\<open>int\<close> or a struct unchanged and
    makes a slice nil; an array is decoded element by element into the elements the
    slice's array already holds. A value of the wrong kind makes the call fail.
  \<^item> A nil slice is written as \<^verbatim>\<open>null\<close> and an empty one as \<^verbatim>\<open>[]\<close>; both are the list
    \<open>[]\<close> here, and \<open>SerializeAction\<close> writes the latter.
\<close>

datatype json =
    JNull
  | JBool bool
  | JNumber int
  | JFloat
  | JString string
  | JArray "json list"
  | JObject "(string \<times> json) list"

definition byte :: "char \<Rightarrow> nat" where
  "byte c = of_char c"

definition inRange :: "nat \<Rightarrow> nat \<Rightarrow> char \<Rightarrow> bool" where
  "inRange lo hi c \<longleftrightarrow> lo \<le> byte c \<and> byte c \<le> hi"

text \<open>
  The table \<^verbatim>\<open>first\<close> of package \<^verbatim>\<open>utf8\<close> with its \<^verbatim>\<open>acceptRanges\<close>: for a leading byte
  above \<^verbatim>\<open>0x7F\<close>, the length of the sequence and the range of its second byte.
\<close>

definition utf8_first :: "char \<Rightarrow> (nat \<times> nat \<times> nat) option" where
  "utf8_first c =
     (if inRange 0xC2 0xDF c then Some (2, 0x80, 0xBF)
      else if byte c = 0xE0 then Some (3, 0xA0, 0xBF)
      else if inRange 0xE1 0xEC c then Some (3, 0x80, 0xBF)
      else if byte c = 0xED then Some (3, 0x80, 0x9F)
      else if inRange 0xEE 0xEF c then Some (3, 0x80, 0xBF)
      else if byte c = 0xF0 then Some (4, 0x90, 0xBF)
      else if inRange 0xF1 0xF3 c then Some (4, 0x80, 0xBF)
      else if byte c = 0xF4 then Some (4, 0x80, 0x8F)
      else None)"

text \<open>
  \<^verbatim>\<open>utf8.DecodeRuneInString\<close>, as far as the codec looks at it: the width of the
  well-formed sequence the string begins with, or \<open>None\<close> where the function answers
  \<^verbatim>\<open>(RuneError, 1)\<close>.
\<close>

definition runeSize :: "string \<Rightarrow> nat option" where
  "runeSize s =
     (case s of
        [] \<Rightarrow> None
      | s0 # _ \<Rightarrow>
          if byte s0 < 0x80 then Some 1
          else (case utf8_first s0 of
                  None \<Rightarrow> None
                | Some (sz, lo, hi) \<Rightarrow>
                    if length s < sz then None
                    else if \<not> inRange lo hi (s ! 1) then None
                    else if sz \<le> 2 then Some 2
                    else if \<not> inRange 0x80 0xBF (s ! 2) then None
                    else if sz \<le> 3 then Some 3
                    else if \<not> inRange 0x80 0xBF (s ! 3) then None
                    else Some 4))"

lemma runeSize_pos: "runeSize s = Some n \<Longrightarrow> 0 < n"
  by (auto simp: runeSize_def split: list.splits if_splits option.splits)

definition replacementChar :: string where
  "replacementChar = [CHR 0xEF, CHR 0xBF, CHR 0xBD]"

function coerceUTF8 :: "string \<Rightarrow> string" where
  "coerceUTF8 s =
     (if s = [] then []
      else (case runeSize s of
              None \<Rightarrow> replacementChar @ coerceUTF8 (drop 1 s)
            | Some n \<Rightarrow> take n s @ coerceUTF8 (drop n s)))"
  by pat_completeness auto
termination
  by (relation "measure length") (auto dest: runeSize_pos)

declare coerceUTF8.simps [simp del]

text \<open>\<^verbatim>\<open>utf8.ValidString\<close>.\<close>

function validUTF8 :: "string \<Rightarrow> bool" where
  "validUTF8 s =
     (if s = [] then True
      else (case runeSize s of
              None \<Rightarrow> False
            | Some n \<Rightarrow> validUTF8 (drop n s)))"
  by pat_completeness auto
termination
  by (relation "measure length") (auto dest: runeSize_pos)

declare validUTF8.simps [simp del]

text \<open>
  The folding of member names: ASCII letters to upper case, and the two letters outside
  ASCII that fold to an ASCII letter, U+017F to \<^verbatim>\<open>S\<close> and U+212A to \<^verbatim>\<open>K\<close>. Every other byte
  above \<^verbatim>\<open>0x7F\<close> is left in place: it belongs to a character that folds to one outside
  ASCII (or to no character, and is read as U+FFFD), and the folded names are only
  compared with those of the fields, which are ASCII.
\<close>

fun foldName :: "string \<Rightarrow> string" where
  "foldName [] = []"
| "foldName (c # cs) =
     (if inRange 0x61 0x7A c then char_of (byte c - 0x20) # foldName cs
      else if take 2 (c # cs) = [CHR 0xC5, CHR 0xBF] then CHR ''S'' # foldName (drop 1 cs)
      else if take 3 (c # cs) = [CHR 0xE2, CHR 0x84, CHR 0xAA] then CHR ''K'' # foldName (drop 2 cs)
      else c # foldName cs)"

declare foldName.simps [simp del]

definition bind_err :: "error + 'a \<Rightarrow> ('a \<Rightarrow> error + 'b) \<Rightarrow> error + 'b" where
  "bind_err r f = (case r of Inl e \<Rightarrow> Inl e | Inr x \<Rightarrow> f x)"

text \<open>Decoding a value into a field that holds \<open>v\<close>.\<close>

definition decode_string :: "json \<Rightarrow> string \<Rightarrow> error + string" where
  "decode_string j v =
     (case j of
        JNull \<Rightarrow> Inr v
      | JString s \<Rightarrow> Inr (coerceUTF8 s)
      | _ \<Rightarrow> Inl errUnmarshal)"

definition decode_int :: "json \<Rightarrow> int \<Rightarrow> error + int" where
  "decode_int j v =
     (case j of
        JNull \<Rightarrow> Inr v
      | JNumber n \<Rightarrow> if isInt n then Inr n else Inl errUnmarshal
      | _ \<Rightarrow> Inl errUnmarshal)"

text \<open>
  Decoding an object into a struct; \<open>field\<close> decodes a value into the field of a folded
  name. The library goes on after a value of the wrong kind and returns the first such
  error at the end; the result is an error either way.
\<close>

fun decode_members ::
  "(string \<Rightarrow> json \<Rightarrow> 'a \<Rightarrow> error + 'a) \<Rightarrow> (string \<times> json) list \<Rightarrow> 'a \<Rightarrow> error + 'a" where
  "decode_members field [] v = Inr v"
| "decode_members field ((key, j) # kvs) v =
     bind_err (field (foldName key) j v) (decode_members field kvs)"

definition decode_struct ::
  "(string \<Rightarrow> json \<Rightarrow> 'a \<Rightarrow> error + 'a) \<Rightarrow> json \<Rightarrow> 'a \<Rightarrow> error + 'a" where
  "decode_struct field j v =
     (case j of
        JNull \<Rightarrow> Inr v
      | JObject kvs \<Rightarrow> decode_members field kvs v
      | _ \<Rightarrow> Inl errUnmarshal)"

definition marshal_string :: "string \<Rightarrow> json" where
  "marshal_string s = JString (coerceUTF8 s)"

text \<open>
  Modelled from the spec: the JSON form of \<^verbatim>\<open>Card\<close>. The declaration of \<^verbatim>\<open>Card\<close> with its
  struct tags is not part of the given files; the spec gives the value type
  \<^verbatim>\<open>{Number: int, Suit}\<close>, and the members are named after the two fields.
\<close>

definition marshal_Card :: "Card \<Rightarrow> json" where
  "marshal_Card crd =
     JObject [(''number'', JNumber (Number crd)), (''suit'', marshal_string (Suit crd))]"

definition Card_field :: "string \<Rightarrow> json \<Rightarrow> Card \<Rightarrow> error + Card" where
  "Card_field key j crd =
     (if key = foldName ''number''
      then bind_err (decode_int j (Number crd)) (\<lambda>n. Inr (crd\<lparr>Number := n\<rparr>))
      else if key = foldName ''suit''
      then bind_err (decode_string j (Suit crd)) (\<lambda>s. Inr (crd\<lparr>Suit := s\<rparr>))
      else Inr crd)"

definition zeroCard :: Card where
  "zeroCard = \<lparr>Number = 0, Suit = []\<rparr>"

text \<open>
  Decoding an array into a \<^verbatim>\<open>[]Card\<close>. The field is modelled by the contents \<open>arr\<close> of the
  slice's array and the length \<open>n\<close> of the slice, which is \<open>take n arr\<close>: element \<open>i\<close> of
  the array is decoded into what the array holds at \<open>i\<close>, a zero \<^verbatim>\<open>Card\<close> beyond its end.
  (The array holds something only when a record names the field a second time; the first
  array of a record is decoded into zero cards.)
\<close>

fun decode_elements :: "json list \<Rightarrow> Card list \<Rightarrow> error + Card list" where
  "decode_elements [] arr = Inr arr"
| "decode_elements (j # js) arr =
     bind_err (decode_struct Card_field j (case arr of [] \<Rightarrow> zeroCard | crd # _ \<Rightarrow> crd)) (\<lambda>crd.
     bind_err (decode_elements js (tl arr)) (\<lambda>rest. Inr (crd # rest)))"

definition decode_Cards :: "json \<Rightarrow> Card list \<times> nat \<Rightarrow> error + Card list \<times> nat" where
  "decode_Cards j v =
     (case j of
        JNull \<Rightarrow> Inr ([], 0)
      | JArray js \<Rightarrow>
          if js = [] then Inr ([], 0)
          else bind_err (decode_elements js (fst v)) (\<lambda>arr. Inr (arr, length js))
      | _ \<Rightarrow> Inl errUnmarshal)"

definition marshal_act :: "act \<Rightarrow> (string \<times> json) list" where
  "marshal_act a = [(''name'', marshal_string (Name a)), (''playerID'', JNumber (PlayerID a))]"

text \<open>
  \<^verbatim>\<open>SerializeAction\<close>: the members of the embedded \<^verbatim>\<open>act\<close> come first, then the fields of
  the variant under their struct tags (\<^verbatim>\<open>card\<close>; \<^verbatim>\<open>cards\<close> and \<^verbatim>\<open>meldType\<close>).
\<close>

fun SerializeAction :: "Action \<Rightarrow> json" where
  "SerializeAction (ActionDrawFromDrawPile a) = JObject (marshal_act a)"
| "SerializeAction (ActionDrawFromDiscardPile a) = JObject (marshal_act a)"
| "SerializeAction (ActionDiscardCard a crd) =
     JObject (marshal_act a @ [(''card'', marshal_Card crd)])"
| "SerializeAction (ActionMeldCards a cards meldType) =
     JObject (marshal_act a @
       [(''cards'', JArray (map marshal_Card cards)), (''meldType'', marshal_string meldType)])"
| "SerializeAction (ActionKnock a) = JObject (marshal_act a)"
| "SerializeAction (ActionConfirmRoundFinished a) = JObject (marshal_act a)"

text \<open>The first \<^verbatim>\<open>json.Unmarshal\<close>, into \<^verbatim>\<open>struct { Name string }\<close>.\<close>

definition actionName_field :: "string \<Rightarrow> json \<Rightarrow> string \<Rightarrow> error + string" where
  "actionName_field key j name =
     (if key = foldName ''name'' then decode_string j name else Inr name)"

definition unmarshal_actionName :: "json \<Rightarrow> error + string" where
  "unmarshal_actionName bs = decode_struct actionName_field bs []"

text \<open>The fields of the action structs: those of the embedded \<^verbatim>\<open>act\<close>, and the variant's own.\<close>

definition act_field :: "string \<Rightarrow> json \<Rightarrow> act \<Rightarrow> error + act" where
  "act_field key j a =
     (if key = foldName ''name''
      then bind_err (decode_string j (Name a)) (\<lambda>n. Inr (a\<lparr>Name := n\<rparr>))
      else if key = foldName ''playerID''
      then bind_err (decode_int j (PlayerID a)) (\<lambda>p. Inr (a\<lparr>PlayerID := p\<rparr>))
      else Inr a)"

definition zeroAct :: act where
  "zeroAct = \<lparr>Name = [], PlayerID = 0\<rparr>"

definition ActionDiscardCard_field ::
  "string \<Rightarrow> json \<Rightarrow> act \<times> Card \<Rightarrow> error + act \<times> Card" where
  "ActionDiscardCard_field key j v =
     (if key = foldName ''card''
      then bind_err (decode_struct Card_field j (snd v)) (\<lambda>crd. Inr (fst v, crd))
      else bind_err (act_field key j (fst v)) (\<lambda>a. Inr (a, snd v)))"

definition ActionMeldCards_field ::
  "string \<Rightarrow> json \<Rightarrow> act \<times> (Card list \<times> nat) \<times> MeldType \<Rightarrow>
   error + act \<times> (Card list \<times> nat) \<times> MeldType" where
  "ActionMeldCards_field key j v =
     (case v of (a, cards, meldType) \<Rightarrow>
        if key = foldName ''cards''
        then bind_err (decode_Cards j cards) (\<lambda>cards'. Inr (a, cards', meldType))
        else if key = foldName ''meldType''
        then bind_err (decode_string j meldType) (\<lambda>meldType'. Inr (a, cards, meldType'))
        else bind_err (act_field key j a) (\<lambda>a'. Inr (a', cards, meldType)))"

text \<open>
  \<^verbatim>\<open>DeserializeAction\<close>: the name selects the variant; the second \<^verbatim>\<open>json.Unmarshal\<close> fills a
  zero value of it.
\<close>

definition DeserializeAction :: "json \<Rightarrow> error + Action" where
  "DeserializeAction bs =
     bind_err (unmarshal_actionName bs) (\<lambda>actionName.
       if actionName = DRAW_FROM_DRAW_PILE then
         bind_err (decode_struct act_field bs zeroAct) (\<lambda>a. Inr (ActionDrawFromDrawPile a))
       else if actionName = DRAW_FROM_DISCARD_PILE then
         bind_err (decode_struct act_field bs zeroAct) (\<lambda>a. Inr (ActionDrawFromDiscardPile a))
       else if actionName = DISCARD_CARD then
         bind_err (decode_struct ActionDiscardCard_field bs (zeroAct, zeroCard)) (\<lambda>(a, crd).
           Inr (ActionDiscardCard a crd))
       else if actionName = MELD_CARDS then
         bind_err (decode_struct ActionMeldCards_field bs (zeroAct, ([], 0), []))
           (\<lambda>(a, (arr, n), meldType). Inr (ActionMeldCards a (take n arr) meldType))
       else if actionName = KNOCK then
         bind_err (decode_struct act_field bs zeroAct) (\<lambda>a. Inr (ActionKnock a))
       else if actionName = CONFIRM_ROUND_FINISHED then
         bind_err (decode_struct act_field bs zeroAct) (\<lambda>a. Inr (ActionConfirmRoundFinished a))
       else Inl errUnknownAction)"

definition serializeActions :: "Action list \<Rightarrow> json list" where
  "serializeActions as = map SerializeAction as"

definition actionNames :: "string set" where
  "actionNames = {DRAW_FROM_DRAW_PILE, DRAW_FROM_DISCARD_PILE, DISCARD_CARD, MELD_CARDS, KNOCK,
                  CONFIRM_ROUND_FINISHED}"

subsection \<open>Validity of a declared meld (\<^verbatim>\<open>ActionMeldCards\<close>)\<close>

text \<open>The map \<^verbatim>\<open>suits\<close> of type \<^verbatim>\<open>map[string]bool\<close> is the set of suits seen so far.\<close>

fun noDuplicateSuits :: "string set \<Rightarrow> Card list \<Rightarrow> bool" where
  "noDuplicateSuits suits [] = True"
| "noDuplicateSuits suits (crd # cards) =
     (if Suit crd \<in> suits then False else noDuplicateSuits (insert (Suit crd) suits) cards)"

definition meld_isValidSet :: "Card list \<Rightarrow> bool" where
  "meld_isValidSet cards =
     (if length cards < 3 then False
      else if \<not> list_all (\<lambda>crd. Number crd = Number (cards ! 0)) cards then False
      else noDuplicateSuits {} cards)"

text \<open>
  The sort written out twice in the source (in \<^verbatim>\<open>isValidRun\<close> and in
  \<^verbatim>\<open>generateRunMeldActions\<close>): for every \<open>i\<close>, every later position \<open>j\<close> is compared with
  position \<open>i\<close> and the two cards are swapped when they are out of order.
\<close>

function sortInner :: "Card list \<Rightarrow> nat \<Rightarrow> nat \<Rightarrow> Card list" where
  "sortInner s i j =
     (if j < length s
      then sortInner (if Number (s ! i) > Number (s ! j) then s[i := s ! j, j := s ! i] else s)
             i (j + 1)
      else s)"
  by pat_completeness auto
termination
  by (relation "measure (\<lambda>(s, i, j). length s - j)") auto

declare sortInner.simps [simp del]

lemma length_sortInner [simp]: "length (sortInner s i j) = length s"
  by (induction s i j rule: sortInner.induct) (subst sortInner.simps, simp)

function sortOuter :: "Card list \<Rightarrow> nat \<Rightarrow> Card list" where
  "sortOuter s i = (if i + 1 < length s then sortOuter (sortInner s i (i + 1)) (i + 1) else s)"
  by pat_completeness auto
termination
  by (relation "measure (\<lambda>(s, i). length s - i)") auto

declare sortOuter.simps [simp del]

definition sortByNumber :: "Card list \<Rightarrow> Card list" where
  "sortByNumber cards = sortOuter cards 0"

definition consecutiveNumbers :: "Card list \<Rightarrow> bool" where
  "consecutiveNumbers sortedCards =
     list_all (\<lambda>i. Number (sortedCards ! i) = Number (sortedCards ! (i - 1)) + 1)
       [1..<length sortedCards]"

definition meld_isValidRun :: "Card list \<Rightarrow> bool" where
  "meld_isValidRun cards =
     (if length cards < 3 then False
      else if \<not> list_all (\<lambda>crd. Suit crd = Suit (cards ! 0)) cards then False
      else consecutiveNumbers (sortByNumber cards))"

definition isValidMeld :: "Card list \<Rightarrow> MeldType \<Rightarrow> bool" where
  "isValidMeld cards meldType =
     (if length cards < 3 then False
      else if meldType = MeldTypeSet then meld_isValidSet cards
      else if meldType = MeldTypeRun then meld_isValidRun cards
      else False)"

subsection \<open>Meld-candidate generator\<close>

text \<open>
  \<^verbatim>\<open>rankGroups\<close> and \<^verbatim>\<open>suitGroups\<close> are Go maps from a key to the cards of the hand with
  that key, in hand order; they are association lists here, in the order in which the keys
  first occur.
\<close>

fun group_add :: "'k \<Rightarrow> Card \<Rightarrow> ('k \<times> Card list) list \<Rightarrow> ('k \<times> Card list) list" where
  "group_add k crd [] = [(k, [crd])]"
| "group_add k crd ((k', cards) # groups) =
     (if k = k' then (k', cards @ [crd]) # groups else (k', cards) # group_add k crd groups)"

definition groupBy :: "(Card \<Rightarrow> 'k) \<Rightarrow> Card list \<Rightarrow> ('k \<times> Card list) list" where
  "groupBy key hand = foldl (\<lambda>groups crd. group_add (key crd) crd groups) [] hand"

fun generateCombinations :: "Card list \<Rightarrow> nat \<Rightarrow> Card list list" where
  "generateCombinations cards 0 = [[]]"
| "generateCombinations [] (Suc k) = []"
| "generateCombinations (first # remaining) (Suc k) =
     (if length (first # remaining) < Suc k then []
      else map ((#) first) (generateCombinations remaining k)
           @ generateCombinations remaining (Suc k))"

fun isValidSet_loop :: "int \<Rightarrow> string set \<Rightarrow> Card list \<Rightarrow> bool" where
  "isValidSet_loop rank suits [] = True"
| "isValidSet_loop rank suits (crd # cards) =
     (if Number crd \<noteq> rank then False
      else if Suit crd \<in> suits then False
      else isValidSet_loop rank (insert (Suit crd) suits) cards)"

definition isValidSet :: "Card list \<Rightarrow> bool" where
  "isValidSet cards =
     (if length cards < 3 then False else isValidSet_loop (Number (cards ! 0)) {} cards)"

definition generateSetMeldActions :: "Card list \<Rightarrow> int \<Rightarrow> Action list" where
  "generateSetMeldActions hand playerID =
     concat (map (\<lambda>(rank, cards).
       if length cards \<ge> 3
       then map (\<lambda>combo. NewActionMeldCards combo MeldTypeSet playerID)
              (filter isValidSet (generateCombinations cards 3))
       else []) (groupBy Number hand))"

text \<open>
  \<^verbatim>\<open>findConsecutiveRuns\<close>: \<open>runEnd\<close> is the inner loop that moves \<open>i\<close> to the last card of
  the run starting at \<open>i\<close>; \<open>subRuns\<close> are the two nested loops over \<open>length\<close> and
  \<open>startIdx\<close>; \<open>findRunsFrom\<close> is the outer loop.
\<close>

function runEnd :: "Card list \<Rightarrow> nat \<Rightarrow> nat" where
  "runEnd s i =
     (if i + 1 < length s \<and> Number (s ! (i + 1)) = Number (s ! i) + 1
      then runEnd s (i + 1) else i)"
  by pat_completeness auto
termination
  by (relation "measure (\<lambda>(s, i). length s - i)") auto

declare runEnd.simps [simp del]

lemma runEnd_ge: "i \<le> runEnd s i"
  by (induction s i rule: runEnd.induct) (subst runEnd.simps, auto)

definition subRuns :: "Card list \<Rightarrow> Card list list" where
  "subRuns runCards =
     concat (map (\<lambda>len. map (\<lambda>startIdx. take len (drop startIdx runCards))
                          [0..<length runCards - len + 1])
               [3..<length runCards + 1])"

function findRunsFrom :: "Card list \<Rightarrow> nat \<Rightarrow> Card list list" where
  "findRunsFrom s i =
     (if i < length s
      then (if runEnd s i - i + 1 \<ge> 3
            then subRuns (take (runEnd s i - i + 1) (drop i s)) else [])
           @ findRunsFrom s (runEnd s i + 1)
      else [])"
  by pat_completeness auto
termination
proof (relation "measure (\<lambda>(s, i). length s - i)")
  show "wf (measure (\<lambda>(s, i). length s - i))" by simp
next
  fix s :: "Card list" and i :: nat
  assume "i < length s"
  moreover have "i \<le> runEnd s i" by (rule runEnd_ge)
  ultimately show "((s, runEnd s i + 1), (s, i)) \<in> measure (\<lambda>(s, i). length s - i)"
    by simp
qed

declare findRunsFrom.simps [simp del]

definition findConsecutiveRuns :: "Card list \<Rightarrow> Card list list" where
  "findConsecutiveRuns sortedCards = findRunsFrom sortedCards 0"

definition generateRunMeldActions :: "Card list \<Rightarrow> int \<Rightarrow> Action list" where
  "generateRunMeldActions hand playerID =
     concat (map (\<lambda>(suit, cards).
       if length cards \<ge> 3
       then map (\<lambda>run. NewActionMeldCards run MeldTypeRun playerID)
              (findConsecutiveRuns (sortByNumber cards))
       else []) (groupBy Suit hand))"

text \<open>
  The cards of one suit as \<^verbatim>\<open>generateRunMeldActions\<close> passes them to
  \<^verbatim>\<open>findConsecutiveRuns\<close>: the group of the suit, sorted by the loops of the source
  (the same loops as in \<^verbatim>\<open>ActionMeldCards\<close>). The cards being sorted, the successor of the
  largest \<^verbatim>\<open>int\<close>, which wraps around to the smallest, is never found behind it, and
  \<open>runEnd\<close> compares with the successor in \<^typ>\<open>int\<close>.
\<close>

definition suitCards :: "string \<Rightarrow> Card list \<Rightarrow> Card list" where
  "suitCards suit hand = sortByNumber (filter (\<lambda>crd. Suit crd = suit) hand)"

text \<open>
  \<open>consecutiveFrom s i n\<close>: the \<open>n\<close> cards of \<open>s\<close> from position \<open>i\<close> on go up by one in
  number from each card to the next. \<open>maximalRun s i L\<close>: such a stretch of \<open>L\<close> cards that
  can be extended neither to the left nor to the right.
\<close>

definition consecutiveFrom :: "Card list \<Rightarrow> nat \<Rightarrow> nat \<Rightarrow> bool" where
  "consecutiveFrom s i n =
     list_all (\<lambda>k. Number (s ! (i + k + 1)) = Number (s ! (i + k)) + 1) [0..<n - 1]"

definition maximalRun :: "Card list \<Rightarrow> nat \<Rightarrow> nat \<Rightarrow> bool" where
  "maximalRun s i L \<longleftrightarrow>
     0 < L \<and> i + L \<le> length s \<and> consecutiveFrom s i L \<and>
     (i = 0 \<or> Number (s ! i) \<noteq> Number (s ! (i - 1)) + 1) \<and>
     (i + L = length s \<or> Number (s ! (i + L)) \<noteq> Number (s ! (i + L - 1)) + 1)"

section \<open>Game state and actions\<close>

subsection \<open>State\<close>

record Player =
  Hand :: "Card list"
  Melds :: "Meld list"
  Score :: int

record ActionLog =
  log_PlayerID :: int
  log_Action :: json

text \<open>
  \<^verbatim>\<open>RoundLog\<close>. Its fields \<^verbatim>\<open>KnockedPlayerID\<close> and \<^verbatim>\<open>WinnerPlayerID\<close> carry the prefix
  \<open>round_\<close> to keep them apart from the fields of the same name of \<^verbatim>\<open>GameState\<close>. The
  field \<^verbatim>\<open>HandsDealt\<close> holds the very \<^verbatim>\<open>*Hand\<close> pointers of the two players, no function
  of the package reads it, and it is left out.
\<close>

record RoundLog =
  MeldsDealt :: "int \<rightharpoonup> Meld list"
  round_KnockedPlayerID :: int
  round_WinnerPlayerID :: int
  LoserPlayerID :: int
  WinnerDeadwoodPoints :: int
  LoserDeadwoodPoints :: int
  PointsAwarded :: int
  ActionsLog :: "ActionLog list"

text \<open>
  \<^verbatim>\<open>GameState\<close>. The map \<^verbatim>\<open>RoundFinishedConfirmedPlayerIDs\<close>, whose length
  \<^verbatim>\<open>RunAction\<close> reads, is an association list; \<open>mapLen\<close> counts its keys.
\<close>

record GameState =
  RoundNumber :: int
  TurnPlayerID :: int
  TurnOpponentPlayerID :: int
  Players :: "int \<rightharpoonup> Player"
  PossibleActions :: "json list"
  DrawPile :: Pile
  DiscardPile :: Pile
  HasDrawnThisTurn :: bool
  HasDiscardedThisTurn :: bool
  KnockedPlayerID :: int
  IsRoundFinished :: bool
  IsGameEnded :: bool
  WinnerPlayerID :: int
  RoundsLog :: "RoundLog list"
  RoundFinishedConfirmedPlayerIDs :: "(int \<times> bool) list"
  RuleMaxPoints :: int
  deck :: "Card list"

text \<open>
  What a call takes from the Go runtime: the permutation \<^verbatim>\<open>deck.shuffle\<close> applies (the
  method is not part of the given files; see \<open>startNewRound\<close>), and the order in which
  \<^verbatim>\<open>range g.Players\<close> yields the player ids.
\<close>

record runtime =
  shuffle :: "Card list \<Rightarrow> Card list"
  rangePlayers :: "int list"

definition mapLen :: "(int \<times> bool) list \<Rightarrow> nat" where
  "mapLen m = length (remdups (map fst m))"

text \<open>Indexing a slice with an \<^verbatim>\<open>int\<close>: out of range is a panic.\<close>

definition index :: "'a list \<Rightarrow> int \<Rightarrow> 'a option" where
  "index xs i = (if 0 \<le> i \<and> i < int (length xs) then Some (xs ! nat i) else None)"

text \<open>
  A confirmation that the round is finished is on record only in a finished round:
  \<^verbatim>\<open>startNewRound\<close> empties the set and clears the flag together.
\<close>

definition noEarlyConfirmation :: "GameState \<Rightarrow> bool" where
  "noEarlyConfirmation g \<longleftrightarrow> IsRoundFinished g \<or> RoundFinishedConfirmedPlayerIDs g = []"

definition DefaultMaxPoints :: int where
  "DefaultMaxPoints = 100"

definition OpponentOf :: "int list \<Rightarrow> int \<Rightarrow> int" where
  "OpponentOf ids playerID =
     (case filter (\<lambda>pid. pid \<noteq> playerID) ids of [] \<Rightarrow> - 1 | pid # _ \<Rightarrow> pid)"

definition changeTurn :: "GameState \<Rightarrow> GameState" where
  "changeTurn g =
     g\<lparr>TurnPlayerID := TurnOpponentPlayerID g, TurnOpponentPlayerID := TurnPlayerID g\<rparr>"

subsection \<open>Legality of the actions\<close>

definition hasValidMelds :: "act \<Rightarrow> GameState \<Rightarrow> bool option" where
  "hasValidMelds a g =
     do { p \<leftarrow> Players g (PlayerID a);
          Some (calculateDeadwoodPoints (Hand p) (Melds p) \<le> 10) }"

text \<open>
  Modelled from the spec: \<^verbatim>\<open>ActionConfirmRoundFinished.IsPossible\<close>. The methods of this
  action are not part of the given files; the spec gives "legal when the round is finished
  (no turn-ownership restriction)".
\<close>

definition confirm_IsPossible :: "act \<Rightarrow> GameState \<Rightarrow> bool option" where
  "confirm_IsPossible a g = Some (IsRoundFinished g)"

fun IsPossible :: "Action \<Rightarrow> GameState \<Rightarrow> bool option" where
  "IsPossible (ActionDrawFromDrawPile a) g =
     Some (TurnPlayerID g = PlayerID a \<and> \<not> HasDrawnThisTurn g \<and>
           \<not> IsEmpty (DrawPile g) \<and> \<not> IsRoundFinished g)"
| "IsPossible (ActionDrawFromDiscardPile a) g =
     Some (TurnPlayerID g = PlayerID a \<and> \<not> HasDrawnThisTurn g \<and>
           \<not> IsEmpty (DiscardPile g) \<and> \<not> IsRoundFinished g)"
| "IsPossible (ActionDiscardCard a crd) g =
     (if TurnPlayerID g \<noteq> PlayerID a \<or> \<not> HasDrawnThisTurn g \<or>
         HasDiscardedThisTurn g \<or> IsRoundFinished g
      then Some False
      else do { p \<leftarrow> Players g (PlayerID a); Some (crd \<in> set (Hand p)) })"
| "IsPossible (ActionMeldCards a cards meldType) g =
     (if TurnPlayerID g \<noteq> PlayerID a \<or> IsRoundFinished g
      then Some False
      else do { p \<leftarrow> Players g (PlayerID a);
                Some (if \<not> list_all (\<lambda>crd. crd \<in> set (Hand p)) cards then False
                      else isValidMeld cards meldType) })"
| "IsPossible (ActionKnock a) g =
     (if TurnPlayerID g \<noteq> PlayerID a \<or> \<not> HasDrawnThisTurn g \<or>
         \<not> HasDiscardedThisTurn g \<or> IsRoundFinished g
      then Some False
      else hasValidMelds a g)"
| "IsPossible (ActionConfirmRoundFinished a) g = confirm_IsPossible a g"

text \<open>
  \<^verbatim>\<open>YieldsTurn\<close>: the two draw actions, \<^verbatim>\<open>ActionDiscardCard\<close> and \<^verbatim>\<open>ActionKnock\<close> define
  it; \<^verbatim>\<open>ActionMeldCards\<close> does not and has the method of the embedded \<^verbatim>\<open>act\<close>, which
  returns \<^verbatim>\<open>true\<close>, and so has \<^verbatim>\<open>ActionConfirmRoundFinished\<close> as far as the given files
  show.
\<close>

fun YieldsTurn :: "Action \<Rightarrow> GameState \<Rightarrow> bool" where
  "YieldsTurn (ActionDrawFromDrawPile a) g = False"
| "YieldsTurn (ActionDrawFromDiscardPile a) g = False"
| "YieldsTurn (ActionDiscardCard a crd) g = True"
| "YieldsTurn (ActionMeldCards a cards meldType) g = True"
| "YieldsTurn (ActionKnock a) g = True"
| "YieldsTurn (ActionConfirmRoundFinished a) g = True"

subsection \<open>Scoring\<close>

definition calculateRoundScore :: "GameState \<Rightarrow> GameState option" where
  "calculateRoundScore g =
     do { roundLog \<leftarrow> index (RoundsLog g) (RoundNumber g);
          p0 \<leftarrow> Players g 0;
          p1 \<leftarrow> Players g 1;
          let player0Deadwood = calculateDeadwoodPoints (Hand p0) (Melds p0);
          let player1Deadwood = calculateDeadwoodPoints (Hand p1) (Melds p1);
          let roundLog = roundLog\<lparr>WinnerDeadwoodPoints := player0Deadwood,
                                   LoserDeadwoodPoints := player1Deadwood,
                                   round_WinnerPlayerID := 0,
                                   LoserPlayerID := 1\<rparr>;
          let roundLog =
            (if player1Deadwood < player0Deadwood
             then roundLog\<lparr>WinnerDeadwoodPoints := player1Deadwood,
                            LoserDeadwoodPoints := player0Deadwood,
                            round_WinnerPlayerID := 1,
                            LoserPlayerID := 0\<rparr>
             else if player1Deadwood = player0Deadwood
             then (if round_KnockedPlayerID roundLog = 0
                   then roundLog\<lparr>round_WinnerPlayerID := 1, LoserPlayerID := 0\<rparr>
                   else roundLog\<lparr>round_WinnerPlayerID := 0, LoserPlayerID := 1\<rparr>)
             else roundLog);
          let winnerDeadwood = WinnerDeadwoodPoints roundLog;
          let loserDeadwood = LoserDeadwoodPoints roundLog;
          let points = loserDeadwood - winnerDeadwood;
          let points = (if winnerDeadwood = 0 then points + 25 else points);
          let points =
            (if round_KnockedPlayerID roundLog \<noteq> - 1 \<and>
                round_KnockedPlayerID roundLog \<noteq> round_WinnerPlayerID roundLog
             then points + 10 else points);
          let roundLog = roundLog\<lparr>PointsAwarded := points\<rparr>;
          winner \<leftarrow> Players g (round_WinnerPlayerID roundLog);
          Some (g\<lparr>RoundsLog := (RoundsLog g)[nat (RoundNumber g) := roundLog],
                  Players := (Players g)(round_WinnerPlayerID roundLog \<mapsto>
                               winner\<lparr>Score := wrapInt (Score winner + points)\<rparr>)\<rparr>) }"

subsection \<open>Effects of the actions\<close>

text \<open>
  Every \<^verbatim>\<open>Run\<close> returns the error (if any) and the state it leaves. All of them start with
  \<^verbatim>\<open>if !a.IsPossible(*g) { return errActionNotPossible }\<close>.
\<close>

definition drawFromDrawPile_Run :: "act \<Rightarrow> GameState \<Rightarrow> (error option \<times> GameState) option" where
  "drawFromDrawPile_Run a g =
     do { possible \<leftarrow> IsPossible (ActionDrawFromDrawPile a) g;
          if \<not> possible then Some (Some errActionNotPossible, g)
          else (case DrawCard (DrawPile g) of
                  None \<Rightarrow> Some (None, g)
                | Some (crd, pile) \<Rightarrow>
                    do { p \<leftarrow> Players g (PlayerID a);
                         Some (None, g\<lparr>DrawPile := pile,
                                       Players := (Players g)(PlayerID a \<mapsto>
                                                    p\<lparr>Hand := Hand p @ [crd]\<rparr>),
                                       HasDrawnThisTurn := True\<rparr>) }) }"

definition drawFromDiscardPile_Run :: "act \<Rightarrow> GameState \<Rightarrow> (error option \<times> GameState) option" where
  "drawFromDiscardPile_Run a g =
     do { possible \<leftarrow> IsPossible (ActionDrawFromDiscardPile a) g;
          if \<not> possible then Some (Some errActionNotPossible, g)
          else (case DrawCard (DiscardPile g) of
                  None \<Rightarrow> Some (None, g)
                | Some (crd, pile) \<Rightarrow>
                    do { p \<leftarrow> Players g (PlayerID a);
                         Some (None, g\<lparr>DiscardPile := pile,
                                       Players := (Players g)(PlayerID a \<mapsto>
                                                    p\<lparr>Hand := Hand p @ [crd]\<rparr>),
                                       HasDrawnThisTurn := True\<rparr>) }) }"

definition discardCard_Run :: "act \<Rightarrow> Card \<Rightarrow> GameState \<Rightarrow> (error option \<times> GameState) option" where
  "discardCard_Run a crd g =
     do { possible \<leftarrow> IsPossible (ActionDiscardCard a crd) g;
          if \<not> possible then Some (Some errActionNotPossible, g)
          else do { p \<leftarrow> Players g (PlayerID a);
                    let newHand = filter (\<lambda>c. c \<noteq> crd) (Hand p);
                    Some (None, g\<lparr>Players := (Players g)(PlayerID a \<mapsto> p\<lparr>Hand := newHand\<rparr>),
                                  DiscardPile := AddCard (DiscardPile g) crd,
                                  HasDiscardedThisTurn := True\<rparr>) } }"

definition meldCards_Run ::
  "act \<Rightarrow> Card list \<Rightarrow> MeldType \<Rightarrow> GameState \<Rightarrow> (error option \<times> GameState) option" where
  "meldCards_Run a cards meldType g =
     do { possible \<leftarrow> IsPossible (ActionMeldCards a cards meldType) g;
          if \<not> possible then Some (Some errActionNotPossible, g)
          else do { p \<leftarrow> Players g (PlayerID a);
                    let newHand = filter (\<lambda>c. \<not> list_ex (\<lambda>meldCard. c = meldCard) cards) (Hand p);
                    let meld = \<lparr>Type = meldType, Cards = cards\<rparr>;
                    Some (None, g\<lparr>Players := (Players g)(PlayerID a \<mapsto>
                                     p\<lparr>Hand := newHand, Melds := Melds p @ [meld]\<rparr>)\<rparr>) } }"

definition knock_Run :: "act \<Rightarrow> GameState \<Rightarrow> (error option \<times> GameState) option" where
  "knock_Run a g =
     do { possible \<leftarrow> IsPossible (ActionKnock a) g;
          if \<not> possible then Some (Some errActionNotPossible, g)
          else do { g1 \<leftarrow> calculateRoundScore (g\<lparr>KnockedPlayerID := PlayerID a\<rparr>);
                    roundLog \<leftarrow> index (RoundsLog g1) (RoundNumber g1);
                    p0 \<leftarrow> Players g1 0;
                    p1 \<leftarrow> Players g1 1;
                    let roundLog = roundLog\<lparr>round_KnockedPlayerID := PlayerID a,
                                             MeldsDealt := [0 \<mapsto> Melds p0, 1 \<mapsto> Melds p1]\<rparr>;
                    Some (None, g1\<lparr>RoundsLog := (RoundsLog g1)[nat (RoundNumber g1) := roundLog],
                                   IsRoundFinished := True\<rparr>) } }"

text \<open>
  Modelled from the spec: \<^verbatim>\<open>ActionConfirmRoundFinished.Run\<close> (not part of the given
  files). The spec: every effect re-checks legality first and fails with
  \<^verbatim>\<open>ActionNotPossible\<close>; this one "records actor id in the confirmed-set for this round".
\<close>

definition confirm_Run :: "act \<Rightarrow> GameState \<Rightarrow> (error option \<times> GameState) option" where
  "confirm_Run a g =
     do { possible \<leftarrow> confirm_IsPossible a g;
          if \<not> possible then Some (Some errActionNotPossible, g)
          else Some (None, g\<lparr>RoundFinishedConfirmedPlayerIDs :=
                               AList.update (PlayerID a) True
                                 (RoundFinishedConfirmedPlayerIDs g)\<rparr>) }"

fun Run :: "Action \<Rightarrow> GameState \<Rightarrow> (error option \<times> GameState) option" where
  "Run (ActionDrawFromDrawPile a) g = drawFromDrawPile_Run a g"
| "Run (ActionDrawFromDiscardPile a) g = drawFromDiscardPile_Run a g"
| "Run (ActionDiscardCard a crd) g = discardCard_Run a crd g"
| "Run (ActionMeldCards a cards meldType) g = meldCards_Run a cards meldType g"
| "Run (ActionKnock a) g = knock_Run a g"
| "Run (ActionConfirmRoundFinished a) g = confirm_Run a g"

subsection \<open>The possible actions\<close>

definition generatePossibleMeldActions :: "GameState \<Rightarrow> int \<Rightarrow> Action list option" where
  "generatePossibleMeldActions g playerID =
     do { p \<leftarrow> Players g playerID;
          Some (generateSetMeldActions (Hand p) playerID @
                generateRunMeldActions (Hand p) playerID) }"

definition allActions :: "GameState \<Rightarrow> Action list option" where
  "allActions g =
     (if IsRoundFinished g
      then Some [NewActionConfirmRoundFinished (TurnPlayerID g),
                 NewActionConfirmRoundFinished (TurnOpponentPlayerID g)]
      else if \<not> HasDrawnThisTurn g
      then Some [NewActionDrawFromDrawPile (TurnPlayerID g),
                 NewActionDrawFromDiscardPile (TurnPlayerID g)]
      else if \<not> HasDiscardedThisTurn g
      then do { p \<leftarrow> Players g (TurnPlayerID g);
                Some (map (\<lambda>crd. NewActionDiscardCard crd (TurnPlayerID g)) (Hand p)) }
      else do { meldActions \<leftarrow> generatePossibleMeldActions g (TurnPlayerID g);
                Some (NewActionKnock (TurnPlayerID g) # meldActions) })"

text \<open>The final loop of \<^verbatim>\<open>CalculatePossibleActions\<close>; \<^verbatim>\<open>Enrich\<close> does nothing.\<close>

fun filterPossible :: "GameState \<Rightarrow> Action list \<Rightarrow> Action list option" where
  "filterPossible g [] = Some []"
| "filterPossible g (action # actions) =
     do { possible \<leftarrow> IsPossible action g;
          possibleActions \<leftarrow> filterPossible g actions;
          Some (if possible then action # possibleActions else possibleActions) }"

definition CalculatePossibleActions :: "GameState \<Rightarrow> Action list option" where
  "CalculatePossibleActions g = do { actions \<leftarrow> allActions g; filterPossible g actions }"

definition countActionsOfTurnPlayer :: "GameState \<Rightarrow> nat option" where
  "countActionsOfTurnPlayer g =
     do { actions \<leftarrow> CalculatePossibleActions g;
          Some (length (filter (\<lambda>a. GetPlayerID a = TurnPlayerID g) actions)) }"

subsection \<open>Starting a round\<close>

text \<open>
  The dealing loop of \<^verbatim>\<open>startNewRound\<close>: seven times, the first card of the deck goes to
  player 0 and the next to player 1; \<^verbatim>\<open>g.deck.cards[0]\<close> on an exhausted deck is a panic.
\<close>

fun deal :: "nat \<Rightarrow> Card list \<Rightarrow> Card list \<Rightarrow> Card list \<Rightarrow> (Card list \<times> Card list \<times> Card list) option" where
  "deal 0 player0Hand player1Hand cards = Some (player0Hand, player1Hand, cards)"
| "deal (Suc n) player0Hand player1Hand (c0 # c1 # cards) =
     deal n (player0Hand @ [c0]) (player1Hand @ [c1]) cards"
| "deal (Suc n) player0Hand player1Hand cards = None"

text \<open>
  \<^verbatim>\<open>startNewRound\<close>. The type \<^verbatim>\<open>deck\<close> and its method \<^verbatim>\<open>shuffle\<close> are not part of the
  given files; the code reads the field \<^verbatim>\<open>cards\<close>, and the reordering done by
  \<^verbatim>\<open>shuffle\<close> is the function the runtime supplies. The values the source assigns one
  after the other are named first and written to the state together; the deck keeps the
  cards that were not dealt, the draw pile is a copy of them, and its top card opens the
  discard pile.
\<close>

definition startNewRound :: "runtime \<Rightarrow> GameState \<Rightarrow> GameState option" where
  "startNewRound rt g =
     do { let cards = shuffle rt (deck g);
          let turnPlayerID = OpponentOf (rangePlayers rt) (TurnPlayerID g);
          let turnOpponentPlayerID = OpponentOf (rangePlayers rt) turnPlayerID;
          (player0Hand, player1Hand, cards) \<leftarrow> deal 7 [] [] cards;
          p0 \<leftarrow> Players g 0;
          p1 \<leftarrow> Players g 1;
          let p0 = p0\<lparr>Hand := player0Hand, Melds := []\<rparr>;
          let p1 = p1\<lparr>Hand := player1Hand, Melds := []\<rparr>;
          let (drawPile, discardPile) =
            (if \<not> IsEmpty cards
             then (case DrawCard cards of
                     Some (crd, pile) \<Rightarrow> (pile, AddCard [] crd)
                   | None \<Rightarrow> (cards, []))
             else (cards, []));
          let g = g\<lparr>deck := cards,
                     RoundNumber := RoundNumber g + 1,
                     TurnPlayerID := turnPlayerID,
                     TurnOpponentPlayerID := turnOpponentPlayerID,
                     Players := (Players g)(0 \<mapsto> p0, 1 \<mapsto> p1),
                     DrawPile := drawPile,
                     DiscardPile := discardPile,
                     KnockedPlayerID := - 1,
                     HasDrawnThisTurn := False,
                     HasDiscardedThisTurn := False,
                     IsRoundFinished := False,
                     RoundFinishedConfirmedPlayerIDs := [],
                     RoundsLog := RoundsLog g @
                       [\<lparr>MeldsDealt = [0 \<mapsto> Melds p0, 1 \<mapsto> Melds p1],
                         round_KnockedPlayerID = - 1,
                         round_WinnerPlayerID = - 1,
                         LoserPlayerID = - 1,
                         WinnerDeadwoodPoints = 0,
                         LoserDeadwoodPoints = 0,
                         PointsAwarded = 0,
                         ActionsLog = []\<rparr>]\<rparr>;
          possibleActions \<leftarrow> CalculatePossibleActions g;
          Some (g\<lparr>PossibleActions := serializeActions possibleActions\<rparr>) }"

subsection \<open>Running an action\<close>

definition appendActionLog :: "Action \<Rightarrow> GameState \<Rightarrow> GameState option" where
  "appendActionLog action g =
     do { roundLog \<leftarrow> index (RoundsLog g) (RoundNumber g);
          Some (g\<lparr>RoundsLog := (RoundsLog g)[nat (RoundNumber g) :=
                    roundLog\<lparr>ActionsLog := ActionsLog roundLog @
                      [\<lparr>log_PlayerID = TurnPlayerID g,
                        log_Action = SerializeAction action\<rparr>]\<rparr>]\<rparr>) }"

text \<open>The loop "Handle end of game due to score", over the player ids in the runtime's order.\<close>

fun endOfGame :: "int list \<Rightarrow> GameState \<Rightarrow> GameState option" where
  "endOfGame [] g = Some g"
| "endOfGame (playerID # ids) g =
     do { p \<leftarrow> Players g playerID;
          endOfGame ids
            (if Score p \<ge> RuleMaxPoints g
             then g\<lparr>Players := (Players g)(playerID \<mapsto> p\<lparr>Score := RuleMaxPoints g\<rparr>),
                    IsGameEnded := True,
                    WinnerPlayerID := playerID\<rparr>
             else g) }"

text \<open>
  The steps of \<^verbatim>\<open>RunAction\<close> after the action has been logged, in the order of the source:
  "Switch player turn within current round", the turn marker moving to the player who has
  not yet confirmed, the end of the game, and the recomputation of the possible actions.
\<close>

definition switchTurn :: "Action \<Rightarrow> GameState \<Rightarrow> GameState" where
  "switchTurn action g =
     (if \<not> IsGameEnded g \<and> \<not> IsRoundFinished g \<and> YieldsTurn action g
      then g\<lparr>TurnPlayerID := TurnOpponentPlayerID g,
             TurnOpponentPlayerID := TurnPlayerID g,
             HasDrawnThisTurn := False,
             HasDiscardedThisTurn := False\<rparr>
      else g)"

definition turnToUnconfirmed :: "GameState \<Rightarrow> GameState" where
  "turnToUnconfirmed g =
     (if \<not> IsGameEnded g \<and> IsRoundFinished g \<and>
         mapLen (RoundFinishedConfirmedPlayerIDs g) = 1
      then (if map_of (RoundFinishedConfirmedPlayerIDs g) (TurnPlayerID g) = Some True
            then changeTurn g else g)
      else g)"

definition refreshPossibleActions :: "GameState \<Rightarrow> GameState option" where
  "refreshPossibleActions g =
     do { possibleActions \<leftarrow> CalculatePossibleActions g;
          n \<leftarrow> countActionsOfTurnPlayer g;
          if n = 0
          then do { let g = changeTurn g;
                    possibleActions \<leftarrow> CalculatePossibleActions g;
                    Some (g\<lparr>PossibleActions := serializeActions possibleActions\<rparr>) }
          else Some (g\<lparr>PossibleActions := serializeActions possibleActions\<rparr>) }"

text \<open>
  \<^verbatim>\<open>RunAction\<close> from the line after \<^verbatim>\<open>action.Run\<close> has returned without error.
\<close>

definition afterRun :: "runtime \<Rightarrow> Action \<Rightarrow> GameState \<Rightarrow> (error option \<times> GameState) option" where
  "afterRun rt action g1 =
     do { g \<leftarrow> (if GetName action \<noteq> CONFIRM_ROUND_FINISHED
                 then appendActionLog action g1 else Some g1);
          if \<not> IsGameEnded g \<and> IsRoundFinished g \<and>
             mapLen (RoundFinishedConfirmedPlayerIDs g) = 2
          then do { g' \<leftarrow> startNewRound rt g; Some (None, g') }
          else do { g \<leftarrow> endOfGame (rangePlayers rt) (turnToUnconfirmed (switchTurn action g));
                    g \<leftarrow> refreshPossibleActions g;
                    Some (None, g) } }"

text \<open>
  \<^verbatim>\<open>RunAction\<close>. A nil action is \<open>None\<close>. The result is the returned error (\<open>None\<close> for
  \<^verbatim>\<open>nil\<close>) and the state after the call.
\<close>

definition RunAction :: "runtime \<Rightarrow> GameState \<Rightarrow> Action option \<Rightarrow> (error option \<times> GameState) option" where
  "RunAction rt g action =
     (case action of
        None \<Rightarrow> Some (None, g)
      | Some a \<Rightarrow>
          if IsGameEnded g then Some (Some errGameIsEnded, g)
          else if \<not> IsRoundFinished g \<and> GetPlayerID a \<noteq> TurnPlayerID g
          then Some (Some errNotYourTurn, g)
          else do {
            possible \<leftarrow> IsPossible a g;
            if \<not> possible then Some (Some errActionNotPossible, g)
            else do {
              (err, g1) \<leftarrow> Run a g;
              (case err of
                 Some e \<Rightarrow> Some (Some (errAfterChecking e), g1)
               | None \<Rightarrow> afterRun rt a g1) } })"

subsection \<open>A new game\<close>

text \<open>
  Modelled from the spec: \<^verbatim>\<open>newDeck\<close> (not part of the given files). The spec: "a shuffled
  40-card source (Spanish-suited, no 8s/9s, ranks 1-7, 10-12)", suit "enum of 4".
\<close>

definition newDeck :: "Card list" where
  "newDeck =
     concat (map (\<lambda>suit. map (\<lambda>n. \<lparr>Number = n, Suit = suit\<rparr>) [1, 2, 3, 4, 5, 6, 7, 10, 11, 12])
               [''oro'', ''copa'', ''espada'', ''basto''])"

definition WithMaxPoints :: "int \<Rightarrow> GameState \<Rightarrow> GameState" where
  "WithMaxPoints maxPoints gs = gs\<lparr>RuleMaxPoints := maxPoints\<rparr>"

definition emptyRoundLog :: RoundLog where
  "emptyRoundLog =
     \<lparr>MeldsDealt = Map.empty, round_KnockedPlayerID = 0, round_WinnerPlayerID = 0,
      LoserPlayerID = 0, WinnerDeadwoodPoints = 0, LoserDeadwoodPoints = 0,
      PointsAwarded = 0, ActionsLog = []\<rparr>"

definition New :: "runtime \<Rightarrow> (GameState \<Rightarrow> GameState) list \<Rightarrow> GameState option" where
  "New rt opts =
     startNewRound rt
       (foldl (\<lambda>gs opt. opt gs)
          \<lparr>RoundNumber = 0,
           TurnPlayerID = 0,
           TurnOpponentPlayerID = 1,
           Players = [0 \<mapsto> \<lparr>Hand = [], Melds = [], Score = 0\<rparr>,
                      1 \<mapsto> \<lparr>Hand = [], Melds = [], Score = 0\<rparr>],
           PossibleActions = [],
           DrawPile = [],
           DiscardPile = [],
           HasDrawnThisTurn = False,
           HasDiscardedThisTurn = False,
           KnockedPlayerID = - 1,
           IsRoundFinished = False,
           IsGameEnded = False,
           WinnerPlayerID = - 1,
           RoundsLog = [emptyRoundLog],
           RoundFinishedConfirmedPlayerIDs = [],
           RuleMaxPoints = DefaultMaxPoints,
           deck = newDeck\<rparr>
          opts)"

subsection \<open>The cards of a state and the states of a game\<close>

text \<open>
  The number of cards a state holds: those of the draw pile, of the discard pile, of the
  hands of both players and of the melds of both players.
\<close>

definition bothPlayers :: "GameState \<Rightarrow> Player list" where
  "bothPlayers g = List.map_filter (Players g) [0, 1]"

definition totalCards :: "GameState \<Rightarrow> nat" where
  "totalCards g =
     length (DrawPile g) + length (DiscardPile g) +
     sum_list (map (\<lambda>p. length (Hand p)) (bothPlayers g)) +
     sum_list (map (\<lambda>p. sum_list (map (\<lambda>m. length (Cards m)) (Melds p))) (bothPlayers g))"

text \<open>The same cards as one list.\<close>

definition cardsOf :: "GameState \<Rightarrow> int \<Rightarrow> Card list" where
  "cardsOf g playerID =
     (case Players g playerID of None \<Rightarrow> [] | Some p \<Rightarrow> Hand p @ concat (map Cards (Melds p)))"

definition cardsInPlay :: "GameState \<Rightarrow> Card list" where
  "cardsInPlay g = DrawPile g @ DiscardPile g @ cardsOf g 0 @ cardsOf g 1"

text \<open>
  Modelled from the spec: \<^verbatim>\<open>deck.shuffle\<close> (not part of the given files) "randomizes order
  using a uniform permutation": the runtime's \<open>shuffle\<close> returns the cards it is given, in
  some order.
\<close>

definition shufflePermutes :: "runtime \<Rightarrow> bool" where
  "shufflePermutes rt \<longleftrightarrow> (\<forall>cards. mset (shuffle rt cards) = mset cards)"

text \<open>
  The states of a game: \<^verbatim>\<open>New\<close> with any number of options \<^verbatim>\<open>WithMaxPoints\<close> (the only
  option of the package), then successful calls of \<^verbatim>\<open>RunAction\<close> with any actions. The
  order in which \<^verbatim>\<open>range\<close> visits the players may change from call to call.
\<close>

inductive reachable :: "GameState \<Rightarrow> bool" where
  fresh: "shufflePermutes rt \<Longrightarrow> New rt (map WithMaxPoints points) = Some g \<Longrightarrow> reachable g"
| step: "reachable g \<Longrightarrow> RunAction rt g action = Some (None, g') \<Longrightarrow> reachable g'"

text \<open>
  What all these states have in common: the two players, the cards of the deck, each once,
  a running round, and a turn that has not yet seen a discard.
\<close>

definition conserved :: "GameState \<Rightarrow> bool" where
  "conserved g \<longleftrightarrow>
     dom (Players g) = {0, 1} \<and> mset (cardsInPlay g) = mset newDeck \<and>
     \<not> HasDiscardedThisTurn g \<and> \<not> IsRoundFinished g"

subsection \<open>The round score in closed form\<close>



section \<open>Example games\<close>

text \<open>
  A runtime that leaves the deck in the order of \<open>newDeck\<close> and visits player 0 before
  player 1. With it the first round starts with player 1 to move.
\<close>

definition exampleRuntime :: runtime where
  "exampleRuntime = \<lparr>shuffle = (\<lambda>cards. cards), rangePlayers = [0, 1]\<rparr>"

text \<open>
  The game \<^verbatim>\<open>New(WithMaxPoints(maxPoints))\<close> after player 1 has drawn from the draw pile
  (undefined when that draw does not succeed).
\<close>

definition afterFirstDraw :: "int \<Rightarrow> GameState option" where
  "afterFirstDraw maxPoints =
     do { g \<leftarrow> New exampleRuntime [WithMaxPoints maxPoints];
          (err, g') \<leftarrow> RunAction exampleRuntime g (Some (NewActionDrawFromDrawPile 1));
          (case err of None \<Rightarrow> Some g' | Some e \<Rightarrow> None) }"

text \<open>
  States in the phase in which a knock is legal: round 1 is running, the turn player has
  drawn and discarded, and the log entry of the round is as \<open>startNewRound\<close> wrote it.
  \<open>playerWith suit crd score\<close> has melded the runs 1-2-3 and 4-5-6 of \<open>suit\<close> and holds
  the single card \<open>crd\<close>.
\<close>

definition startedRoundLog :: RoundLog where
  "startedRoundLog =
     \<lparr>MeldsDealt = [0 \<mapsto> [], 1 \<mapsto> []], round_KnockedPlayerID = - 1,
      round_WinnerPlayerID = - 1, LoserPlayerID = - 1, WinnerDeadwoodPoints = 0,
      LoserDeadwoodPoints = 0, PointsAwarded = 0, ActionsLog = []\<rparr>"

definition knockPhase :: "int \<Rightarrow> Player \<Rightarrow> Player \<Rightarrow> GameState" where
  "knockPhase turn p0 p1 =
     \<lparr>RoundNumber = 1, TurnPlayerID = turn, TurnOpponentPlayerID = 1 - turn,
      Players = [0 \<mapsto> p0, 1 \<mapsto> p1], PossibleActions = [], DrawPile = [], DiscardPile = [],
      HasDrawnThisTurn = True, HasDiscardedThisTurn = True, KnockedPlayerID = - 1,
      IsRoundFinished = False, IsGameEnded = False, WinnerPlayerID = - 1,
      RoundsLog = [emptyRoundLog, startedRoundLog], RoundFinishedConfirmedPlayerIDs = [],
      RuleMaxPoints = DefaultMaxPoints, deck = drop 14 newDeck\<rparr>"

definition runOf :: "string \<Rightarrow> int \<Rightarrow> Meld" where
  "runOf suit n =
     \<lparr>Type = MeldTypeRun, Cards = map (\<lambda>k. \<lparr>Number = k, Suit = suit\<rparr>) [n, n + 1, n + 2]\<rparr>"

definition playerWith :: "string \<Rightarrow> Card \<Rightarrow> int \<Rightarrow> Player" where
  "playerWith suit crd score = \<lparr>Hand = [crd], Melds = [runOf suit 1, runOf suit 4], Score = score\<rparr>"

text \<open>Both players hold 7 points of deadwood; player 0 is to move.\<close>

definition tieState :: GameState where
  "tieState =
     knockPhase 0 (playerWith ''oro'' \<lparr>Number = 7, Suit = ''espada''\<rparr> 0)
                  (playerWith ''copa'' \<lparr>Number = 7, Suit = ''basto''\<rparr> 0)"

text \<open>Player 0 holds 5 points of deadwood, player 1 holds 7 and is to move.\<close>

definition undercutState :: GameState where
  "undercutState =
     knockPhase 1 (playerWith ''oro'' \<lparr>Number = 5, Suit = ''espada''\<rparr> 0)
                  (playerWith ''copa'' \<lparr>Number = 7, Suit = ''basto''\<rparr> 0)"



text \<open>A hand with the set of the threes and the run 1-2-3-4 of oro.\<close>

definition exampleHand :: "Card list" where
  "exampleHand =
     [\<lparr>Number = 3, Suit = ''oro''\<rparr>, \<lparr>Number = 6, Suit = ''oro''\<rparr>, \<lparr>Number = 1, Suit = ''oro''\<rparr>,
      \<lparr>Number = 3, Suit = ''copa''\<rparr>, \<lparr>Number = 4, Suit = ''oro''\<rparr>, \<lparr>Number = 2, Suit = ''oro''\<rparr>,
      \<lparr>Number = 3, Suit = ''basto''\<rparr>, \<lparr>Number = 11, Suit = ''espada''\<rparr>]"

text \<open>What a state shows of a round: knocker, winner, loser, deadwood of both, points.\<close>

definition roundResult :: "GameState \<Rightarrow> int \<Rightarrow> (int \<times> int \<times> int \<times> int \<times> int \<times> int) option" where
  "roundResult g n =
     map_option (\<lambda>r. (round_KnockedPlayerID r, round_WinnerPlayerID r, LoserPlayerID r,
                       WinnerDeadwoodPoints r, LoserDeadwoodPoints r, PointsAwarded r))
       (index (RoundsLog g) n)"

definition deadwoodOf :: "GameState \<Rightarrow> int \<Rightarrow> int option" where
  "deadwoodOf g playerID =
     map_option (\<lambda>p. calculateDeadwoodPoints (Hand p) (Melds p)) (Players g playerID)"

definition scoreOf :: "GameState \<Rightarrow> int \<Rightarrow> int option" where
  "scoreOf g playerID = map_option Score (Players g playerID)"

section \<open>Properties of \<^verbatim>\<open>RunAction\<close>\<close>

subsection \<open>Rejections\<close>

lemma Run_error_state:
  "Run a g = Some (Some e, g1) \<Longrightarrow> g1 = g \<and> IsPossible a g = Some False"
  by (cases a)
     (auto simp: drawFromDrawPile_Run_def drawFromDiscardPile_Run_def discardCard_Run_def
        meldCards_Run_def knock_Run_def confirm_Run_def Let_def
        split: if_splits option.splits prod.splits Option.bind_splits)

lemma afterRun_no_error: "afterRun rt a g1 = Some (r, g') \<Longrightarrow> r = None"
  by (auto simp: afterRun_def split: if_splits Option.bind_splits)

text \<open>
  Claim C10. A nil action makes \<^verbatim>\<open>RunAction\<close> return \<^verbatim>\<open>nil\<close> with the state as it was:
  the game-ended check is not reached, nothing is logged and the possible actions are not
  recomputed. This holds in every state, also after the game has ended.
\<close>

theorem nil_action_is_noop: "RunAction rt g None = Some (None, g)"
  by (simp add: RunAction_def)

text \<open>
  Claim C4. Whenever \<^verbatim>\<open>RunAction\<close> returns an error (game ended, not your turn, action
  not possible, or an error of \<^verbatim>\<open>action.Run\<close>), the state after the call is the state
  before it, field by field (logs and stored possible actions included).
\<close>

theorem rejection_leaves_state_unchanged:
  "RunAction rt g action = Some (Some e, g') \<Longrightarrow> g' = g"
  by (auto simp: RunAction_def split: option.splits if_splits Option.bind_splits prod.splits
      dest: Run_error_state afterRun_no_error)

theorem rejection_leaves_state_unchanged_witness:
  "map_option (\<lambda>g. map_option fst (RunAction exampleRuntime g (Some (NewActionKnock 1))))
     (afterFirstDraw 100) = Some (Some (Some errActionNotPossible)) \<and>
   (\<exists>g. afterFirstDraw 100 = Some g \<and>
        RunAction exampleRuntime g (Some (NewActionKnock 1)) = Some (Some errActionNotPossible, g))"
proof -
  have ev: "map_option (\<lambda>g. map_option fst (RunAction exampleRuntime g (Some (NewActionKnock 1))))
     (afterFirstDraw 100) = Some (Some (Some errActionNotPossible))"
    by code_simp
  then obtain g g' where g: "afterFirstDraw 100 = Some g"
    and r: "RunAction exampleRuntime g (Some (NewActionKnock 1)) = Some (Some errActionNotPossible, g')"
    by (cases "afterFirstDraw 100"; cases "RunAction exampleRuntime (the (afterFirstDraw 100)) (Some (NewActionKnock 1))") auto
  from rejection_leaves_state_unchanged [OF r] have "g' = g" .
  with g r ev show ?thesis by simp
qed

text \<open>
  Claim C5, as amended. In a state whose game has not ended and whose round is not
  finished, an action of a player who is not the turn player is rejected with
  \<^verbatim>\<open>errNotYourTurn\<close>, and the state is unchanged. (\<^verbatim>\<open>RunAction\<close> tests \<^verbatim>\<open>IsGameEnded\<close>
  first: once the game has ended the answer is \<^verbatim>\<open>errGameIsEnded\<close>, whoever acts.)
\<close>

theorem not_your_turn:
  "\<not> IsGameEnded g \<Longrightarrow> \<not> IsRoundFinished g \<Longrightarrow> GetPlayerID a \<noteq> TurnPlayerID g \<Longrightarrow>
   RunAction rt g (Some a) = Some (Some errNotYourTurn, g)"
  by (simp add: RunAction_def)

theorem not_your_turn_witness:
  "\<exists>g. afterFirstDraw 100 = Some g \<and> \<not> IsGameEnded g \<and> \<not> IsRoundFinished g \<and>
       GetPlayerID (NewActionDrawFromDrawPile 0) \<noteq> TurnPlayerID g \<and>
       RunAction exampleRuntime g (Some (NewActionDrawFromDrawPile 0)) = Some (Some errNotYourTurn, g)"
proof -
  have "map_option (\<lambda>g. (IsGameEnded g, IsRoundFinished g,
            GetPlayerID (NewActionDrawFromDrawPile 0) = TurnPlayerID g)) (afterFirstDraw 100)
        = Some (False, False, False)"
    by code_simp
  then obtain g where g: "afterFirstDraw 100 = Some g" "\<not> IsGameEnded g" "\<not> IsRoundFinished g"
      "GetPlayerID (NewActionDrawFromDrawPile 0) \<noteq> TurnPlayerID g"
    by (cases "afterFirstDraw 100") auto
  from not_your_turn [OF g(2,3,4)] g show ?thesis by blast
qed

text \<open>
  The claim C5 as stated does not hold: with \<^verbatim>\<open>WithMaxPoints(0)\<close> the first draw ends the
  game while the round is unfinished; player 1 is the turn player, and an action of player
  0 is then answered with \<^verbatim>\<open>errGameIsEnded\<close>, not \<^verbatim>\<open>errNotYourTurn\<close>.
\<close>

theorem not_your_turn_counterexample:
  "map_option (\<lambda>g. (IsRoundFinished g, TurnPlayerID g, GetPlayerID (NewActionDrawFromDrawPile 0),
                     map_option fst (RunAction exampleRuntime g (Some (NewActionDrawFromDrawPile 0)))))
     (afterFirstDraw 0)
   = Some (False, 1, 0, Some (Some errGameIsEnded))"
  by code_simp

subsection \<open>Knocking\<close>

lemma knock_possible:
  "IsPossible (ActionKnock a) g = Some True \<longleftrightarrow>
     (\<exists>p. Players g (PlayerID a) = Some p \<and> TurnPlayerID g = PlayerID a \<and> HasDrawnThisTurn g \<and>
          HasDiscardedThisTurn g \<and> \<not> IsRoundFinished g \<and>
          calculateDeadwoodPoints (Hand p) (Melds p) \<le> 10)"
  by (auto simp: hasValidMelds_def split: if_splits Option.bind_splits)

lemma RunAction_success:
  "RunAction rt g (Some a) = Some (None, g') \<Longrightarrow>
   \<not> IsGameEnded g \<and> IsPossible a g = Some True \<and>
   (\<exists>g1. Run a g = Some (None, g1) \<and> afterRun rt a g1 = Some (None, g'))"
  by (auto simp: RunAction_def split: if_splits Option.bind_splits option.splits prod.splits)

text \<open>
  Claim C6. For a player \<open>p\<close> with an entry in \<^verbatim>\<open>Players\<close>, \<^verbatim>\<open>ActionKnock.IsPossible\<close> is true
  exactly when the actor is the turn player, has drawn and has discarded this turn, the
  round is not finished and the deadwood of the actor's hand outside the melds is at most
  10. Hence in whatever state a sequence of calls ends, a knock that \<^verbatim>\<open>RunAction\<close> accepts
  there is the knock of a player whose deadwood at that moment is at most 10.
\<close>

theorem knock_legality:
  "(Players g (PlayerID a) = Some p \<longrightarrow>
      IsPossible (ActionKnock a) g =
        Some (TurnPlayerID g = PlayerID a \<and> HasDrawnThisTurn g \<and> HasDiscardedThisTurn g \<and>
              \<not> IsRoundFinished g \<and> calculateDeadwoodPoints (Hand p) (Melds p) \<le> 10)) \<and>
   (RunAction rt g (Some (ActionKnock a)) = Some (None, g') \<longrightarrow>
      (\<exists>p. Players g (PlayerID a) = Some p \<and> calculateDeadwoodPoints (Hand p) (Melds p) \<le> 10))"
proof (intro conjI impI)
  assume "Players g (PlayerID a) = Some p"
  then show "IsPossible (ActionKnock a) g =
        Some (TurnPlayerID g = PlayerID a \<and> HasDrawnThisTurn g \<and> HasDiscardedThisTurn g \<and>
              \<not> IsRoundFinished g \<and> calculateDeadwoodPoints (Hand p) (Melds p) \<le> 10)"
    by (simp add: hasValidMelds_def)
next
  assume "RunAction rt g (Some (ActionKnock a)) = Some (None, g')"
  then have "IsPossible (ActionKnock a) g = Some True"
    by (blast dest: RunAction_success)
  then show "\<exists>p. Players g (PlayerID a) = Some p \<and> calculateDeadwoodPoints (Hand p) (Melds p) \<le> 10"
    unfolding knock_possible by blast
qed

theorem knock_legality_witness:
  "Players undercutState 1 = Some (playerWith ''copa'' \<lparr>Number = 7, Suit = ''basto''\<rparr> 0) \<and>
   IsPossible (NewActionKnock 1) undercutState = Some True \<and>
   map_option fst (RunAction exampleRuntime undercutState (Some (NewActionKnock 1))) = Some None \<and>
   deadwoodOf undercutState 1 = Some 7"
proof -
  let ?a = "\<lparr>Name = KNOCK, PlayerID = 1\<rparr>"
  let ?p = "playerWith ''copa'' \<lparr>Number = 7, Suit = ''basto''\<rparr> 0"
  have p: "Players undercutState (PlayerID ?a) = Some ?p"
    by (simp add: undercutState_def knockPhase_def)
  have d: "calculateDeadwoodPoints (Hand ?p) (Melds ?p) = 7"
    by code_simp
  have flags: "TurnPlayerID undercutState = 1" "HasDrawnThisTurn undercutState"
    "HasDiscardedThisTurn undercutState" "\<not> IsRoundFinished undercutState"
    by (simp_all add: undercutState_def knockPhase_def)
  have run: "map_option fst (RunAction exampleRuntime undercutState (Some (NewActionKnock 1))) = Some None"
    by code_simp
  from knock_legality [of undercutState ?a ?p] p d flags
  have "IsPossible (ActionKnock ?a) undercutState = Some True"
    by simp
  with p d run show ?thesis
    by (simp add: NewActionKnock_def deadwoodOf_def)
qed

text \<open>
  Claim C1 (the code departs from it). \<^verbatim>\<open>calculateRoundScore\<close> breaks a tie by reading
  \<^verbatim>\<open>roundLog.KnockedPlayerID\<close>, which \<^verbatim>\<open>ActionKnock.Run\<close> sets only after the score has been
  calculated; at that moment it still is the \<open>- 1\<close> of \<open>startNewRound\<close>, and a tie goes to
  player 0 whoever knocked. In \<open>tieState\<close> both players hold 7 points, player 0 knocks, and
  the round log names player 0 as knocker and as winner.
\<close>

theorem tie_after_knock_of_player0:
  "deadwoodOf tieState 0 = Some 7 \<and> deadwoodOf tieState 1 = Some 7 \<and>
   map_option (\<lambda>(err, g'). (err, roundResult g' 1))
     (RunAction exampleRuntime tieState (Some (NewActionKnock 0)))
   = Some (None, Some (0, 0, 1, 7, 7, 0))"
  by code_simp

text \<open>
  Claim C2 (the code departs from it). For the same reason the test for the undercut bonus,
  \<^verbatim>\<open>roundLog.KnockedPlayerID != -1\<close>, fails at every knock. In \<open>undercutState\<close> player 1
  knocks with 7 points of deadwood against the 5 of player 0; player 0 wins the round and
  is awarded 2 points, not the 12 that the difference and the undercut bonus make.
\<close>

theorem undercut_bonus_not_awarded:
  "deadwoodOf undercutState 0 = Some 5 \<and> deadwoodOf undercutState 1 = Some 7 \<and>
   map_option (\<lambda>(err, g'). (err, roundResult g' 1, scoreOf g' 0))
     (RunAction exampleRuntime undercutState (Some (NewActionKnock 1)))
   = Some (None, Some (1, 0, 1, 5, 7, 2), Some 2)"
  by code_simp

subsection \<open>Scores and the end of the game\<close>











lemma appendActionLog_frame:
  "appendActionLog a g = Some g' \<Longrightarrow> \<exists>rls. g' = g\<lparr>RoundsLog := rls\<rparr> \<and> length rls = length (RoundsLog g)"
  by (auto simp: appendActionLog_def split: Option.bind_splits)

lemma logged_frame:
  "(if c then appendActionLog a g else Some g) = Some g' \<Longrightarrow>
   \<exists>rls. g' = g\<lparr>RoundsLog := rls\<rparr> \<and> length rls = length (RoundsLog g)"
  by (cases c) (auto dest: appendActionLog_frame intro: exI [of _ "RoundsLog g"])

lemma refreshPossibleActions_frame:
  "refreshPossibleActions g = Some g' \<Longrightarrow>
   \<exists>pa. g' = g\<lparr>PossibleActions := pa\<rparr> \<or> g' = (changeTurn g)\<lparr>PossibleActions := pa\<rparr>"
  by (auto simp: refreshPossibleActions_def Let_def split: Option.bind_splits if_splits)

lemma switchTurn_simps [simp]:
  "Players (switchTurn a g) = Players g"
  "RuleMaxPoints (switchTurn a g) = RuleMaxPoints g"
  "IsGameEnded (switchTurn a g) = IsGameEnded g"
  "IsRoundFinished (switchTurn a g) = IsRoundFinished g"
  "WinnerPlayerID (switchTurn a g) = WinnerPlayerID g"
  "DrawPile (switchTurn a g) = DrawPile g"
  "DiscardPile (switchTurn a g) = DiscardPile g"
  "RoundFinishedConfirmedPlayerIDs (switchTurn a g) = RoundFinishedConfirmedPlayerIDs g"
  by (simp_all add: switchTurn_def)

lemma turnToUnconfirmed_simps [simp]:
  "Players (turnToUnconfirmed g) = Players g"
  "RuleMaxPoints (turnToUnconfirmed g) = RuleMaxPoints g"
  "IsGameEnded (turnToUnconfirmed g) = IsGameEnded g"
  "IsRoundFinished (turnToUnconfirmed g) = IsRoundFinished g"
  "WinnerPlayerID (turnToUnconfirmed g) = WinnerPlayerID g"
  "DrawPile (turnToUnconfirmed g) = DrawPile g"
  "DiscardPile (turnToUnconfirmed g) = DiscardPile g"
  "HasDrawnThisTurn (turnToUnconfirmed g) = HasDrawnThisTurn g"
  "HasDiscardedThisTurn (turnToUnconfirmed g) = HasDiscardedThisTurn g"
  "RoundFinishedConfirmedPlayerIDs (turnToUnconfirmed g) = RoundFinishedConfirmedPlayerIDs g"
  by (simp_all add: turnToUnconfirmed_def changeTurn_def)

lemma scoreOf_cong: "Players g' = Players g \<Longrightarrow> scoreOf g' pid = scoreOf g pid"
  by (simp add: scoreOf_def)

lemma endOfGame_frame:
  "endOfGame ids g = Some g' \<Longrightarrow>
   RuleMaxPoints g' = RuleMaxPoints g \<and> DrawPile g' = DrawPile g \<and> DiscardPile g' = DiscardPile g \<and>
   IsRoundFinished g' = IsRoundFinished g \<and> HasDrawnThisTurn g' = HasDrawnThisTurn g \<and>
   HasDiscardedThisTurn g' = HasDiscardedThisTurn g \<and>
   RoundFinishedConfirmedPlayerIDs g' = RoundFinishedConfirmedPlayerIDs g \<and>
   (\<forall>pid. map_option Hand (Players g' pid) = map_option Hand (Players g pid)) \<and>
   (\<forall>pid. map_option Melds (Players g' pid) = map_option Melds (Players g pid))"
proof (induction ids arbitrary: g)
  case Nil
  then show ?case by simp
next
  case (Cons playerID ids)
  from Cons.prems obtain p where p: "Players g playerID = Some p"
    and rest: "endOfGame ids
            (if Score p \<ge> RuleMaxPoints g
             then g\<lparr>Players := (Players g)(playerID \<mapsto> p\<lparr>Score := RuleMaxPoints g\<rparr>),
                    IsGameEnded := True,
                    WinnerPlayerID := playerID\<rparr>
             else g) = Some g'"
    by (auto split: Option.bind_splits)
  from Cons.IH [OF rest] p show ?case
    by (auto split: if_splits)
qed







subsection \<open>Confirmations are recorded in a finished round only\<close>

lemma startNewRound_confirmations:
  "startNewRound rt g = Some g' \<Longrightarrow> RoundFinishedConfirmedPlayerIDs g' = []"
  by (auto simp: startNewRound_def Let_def split: Option.bind_splits prod.splits if_splits option.splits)

lemma New_noEarlyConfirmation: "New rt opts = Some g \<Longrightarrow> noEarlyConfirmation g"
  by (simp add: New_def noEarlyConfirmation_def startNewRound_confirmations)

lemma Run_noEarlyConfirmation:
  assumes "Run a g = Some (None, g1)" and "noEarlyConfirmation g"
  shows "noEarlyConfirmation g1"
proof (cases a)
  case (ActionKnock x)
  with assms(1) have "IsRoundFinished g1"
    by (auto simp: knock_Run_def Let_def split: if_splits Option.bind_splits)
  then show ?thesis by (simp add: noEarlyConfirmation_def)
next
  case (ActionConfirmRoundFinished x)
  with assms(1) have "IsRoundFinished g1"
    by (auto simp: confirm_Run_def confirm_IsPossible_def split: if_splits)
  then show ?thesis by (simp add: noEarlyConfirmation_def)
qed (use assms in \<open>auto simp: drawFromDrawPile_Run_def drawFromDiscardPile_Run_def
        discardCard_Run_def meldCards_Run_def Let_def noEarlyConfirmation_def
        split: if_splits option.splits prod.splits Option.bind_splits\<close>)

lemma afterRun_noEarlyConfirmation:
  assumes "afterRun rt a g1 = Some (r, g')" and "noEarlyConfirmation g1"
  shows "noEarlyConfirmation g'"
proof -
  from assms(1) obtain gl where gl: "(if GetName a \<noteq> CONFIRM_ROUND_FINISHED
                 then appendActionLog a g1 else Some g1) = Some gl"
    by (auto simp: afterRun_def split: Option.bind_splits)
  from logged_frame [OF gl] obtain rls where rls: "gl = g1\<lparr>RoundsLog := rls\<rparr>" by blast
  show ?thesis
  proof (cases "\<not> IsGameEnded gl \<and> IsRoundFinished gl \<and> mapLen (RoundFinishedConfirmedPlayerIDs gl) = 2")
    case True
    with assms(1) gl have "startNewRound rt gl = Some g'"
      by (auto simp: afterRun_def split: Option.bind_splits)
    from startNewRound_confirmations [OF this] show ?thesis
      by (simp add: noEarlyConfirmation_def)
  next
    case False
    with assms(1) gl obtain g4 where g4: "endOfGame (rangePlayers rt) (turnToUnconfirmed (switchTurn a gl)) = Some g4"
      and r: "refreshPossibleActions g4 = Some g'"
      by (auto simp: afterRun_def split: Option.bind_splits)
    from refreshPossibleActions_frame [OF r] have "IsRoundFinished g' = IsRoundFinished g4"
      "RoundFinishedConfirmedPlayerIDs g' = RoundFinishedConfirmedPlayerIDs g4"
      by (auto simp: changeTurn_def)
    with endOfGame_frame [OF g4] assms(2) show ?thesis
      by (simp add: noEarlyConfirmation_def rls)
  qed
qed

lemma RunAction_noEarlyConfirmation:
  assumes "RunAction rt g action = Some (r, g')" and "noEarlyConfirmation g"
  shows "noEarlyConfirmation g'"
proof (cases action)
  case None
  with assms show ?thesis by (simp add: RunAction_def)
next
  case (Some a)
  show ?thesis
  proof (cases "g' = g")
    case True
    with assms(2) show ?thesis by simp
  next
    case False
    with assms(1) Some obtain g1 where "Run a g = Some (None, g1)" "afterRun rt a g1 = Some (r, g')"
      by (auto simp: RunAction_def split: if_splits Option.bind_splits option.splits prod.splits
          dest: Run_error_state)
    with assms(2) show ?thesis
      by (blast intro: Run_noEarlyConfirmation afterRun_noEarlyConfirmation)
  qed
qed

subsection \<open>Score monotonicity and the end of the game\<close>




section \<open>Properties of the sort\<close>

text \<open>
  The exchange sort of \<^verbatim>\<open>ActionMeldCards\<close> and of \<^verbatim>\<open>generateRunMeldActions\<close> returns the
  cards it is given, in ascending order of their numbers.
\<close>

lemma mset_sortInner: "i < length s \<Longrightarrow> mset (sortInner s i j) = mset s"
proof (induction s i j rule: sortInner.induct)
  case (1 s i j)
  show ?case
  proof (cases "j < length s")
    case False
    then show ?thesis by (subst sortInner.simps) simp
  next
    case True
    define s' where "s' = (if Number (s ! i) > Number (s ! j) then s[i := s ! j, j := s ! i] else s)"
    have l: "length s' = length s" by (simp add: s'_def)
    have m: "mset s' = mset s"
      using mset_swap [OF True "1.prems"] by (simp add: s'_def)
    have "sortInner s i j = sortInner s' i (j + 1)"
      using True by (subst sortInner.simps) (simp add: s'_def)
    moreover from "1.IH" [OF True] "1.prems" l have "mset (sortInner s' i (j + 1)) = mset s'"
      by (simp add: s'_def)
    ultimately show ?thesis using m by simp
  qed
qed

lemma mset_sortOuter: "mset (sortOuter s i) = mset s"
proof (induction s i rule: sortOuter.induct)
  case (1 s i)
  show ?case
  proof (cases "i + 1 < length s")
    case False
    then show ?thesis by (subst sortOuter.simps) simp
  next
    case True
    then have "sortOuter s i = sortOuter (sortInner s i (i + 1)) (i + 1)"
      by (subst sortOuter.simps) simp
    with "1.IH" [OF True] mset_sortInner [of i s "i + 1"] True show ?thesis by simp
  qed
qed

lemma mset_sortByNumber: "mset (sortByNumber cards) = mset cards"
  by (simp add: sortByNumber_def mset_sortOuter)

lemma set_sortByNumber: "set (sortByNumber cards) = set cards"
  by (metis mset_sortByNumber set_mset_mset)

lemma length_sortByNumber: "length (sortByNumber cards) = length cards"
  by (metis mset_sortByNumber size_mset)

lemma sortInner_props:
  assumes "i < j" "i < length s"
  shows "(\<forall>k. k < j \<and> k \<noteq> i \<longrightarrow> sortInner s i j ! k = s ! k) \<and>
         (\<forall>k. j \<le> k \<and> k < length s \<longrightarrow> Number (sortInner s i j ! i) \<le> Number (sortInner s i j ! k)) \<and>
         Number (sortInner s i j ! i) \<le> Number (s ! i) \<and>
         (\<forall>k. i \<le> k \<and> k < length s \<longrightarrow> (\<exists>k'. i \<le> k' \<and> k' < length s \<and> sortInner s i j ! k = s ! k'))"
  using assms
proof (induction s i j rule: sortInner.induct)
  case (1 s i j)
  show ?case
  proof (cases "j < length s")
    case False
    then have "sortInner s i j = s" by (subst sortInner.simps) simp
    with False show ?thesis by auto
  next
    case True
    define s' where "s' = (if Number (s ! i) > Number (s ! j) then s[i := s ! j, j := s ! i] else s)"
    define t where "t = sortInner s' i (j + 1)"
    have l: "length s' = length s" by (simp add: s'_def)
    have t: "sortInner s i j = t"
      using True by (subst sortInner.simps) (simp add: s'_def t_def)
    have ij: "i \<noteq> j" using "1.prems" by simp
    have s'i: "Number (s' ! i) \<le> Number (s ! i)" "Number (s' ! i) \<le> Number (s' ! j)"
      using True "1.prems" ij by (auto simp: s'_def nth_list_update)
    have s'k: "\<And>k. k \<noteq> i \<Longrightarrow> k \<noteq> j \<Longrightarrow> s' ! k = s ! k"
      by (simp add: s'_def)
    have s'from: "\<And>k. i \<le> k \<Longrightarrow> k < length s \<Longrightarrow> \<exists>k'. i \<le> k' \<and> k' < length s \<and> s' ! k = s ! k'"
    proof -
      fix k assume k: "i \<le> k" "k < length s"
      show "\<exists>k'. i \<le> k' \<and> k' < length s \<and> s' ! k = s ! k'"
      proof (cases "Number (s ! i) > Number (s ! j)")
        case False
        with k show ?thesis by (auto simp: s'_def)
      next
        case sw: True
        consider "k = i" | "k = j" | "k \<noteq> i" "k \<noteq> j" by blast
        then show ?thesis
        proof cases
          case 1
          with sw True "1.prems" ij have "s' ! k = s ! j" by (simp add: s'_def nth_list_update)
          with True "1.prems" show ?thesis by (intro exI [of _ j]) simp
        next
          case 2
          with sw True "1.prems" ij have "s' ! k = s ! i" by (simp add: s'_def nth_list_update)
          with "1.prems" show ?thesis by (intro exI [of _ i]) simp
        next
          case 3
          with s'k k show ?thesis by (intro exI [of _ k]) simp
        qed
      qed
    qed
    from "1.prems" l have pre: "i < j + 1" "i < length s'" by simp_all
    note IH = "1.IH" [OF True pre [unfolded s'_def], folded s'_def, folded t_def]
    from IH have a: "\<And>k. k < j + 1 \<Longrightarrow> k \<noteq> i \<Longrightarrow> t ! k = s' ! k"
      and b: "\<And>k. j + 1 \<le> k \<Longrightarrow> k < length s \<Longrightarrow> Number (t ! i) \<le> Number (t ! k)"
      and c: "Number (t ! i) \<le> Number (s' ! i)"
      and d: "\<And>k. i \<le> k \<Longrightarrow> k < length s \<Longrightarrow> \<exists>k'. i \<le> k' \<and> k' < length s \<and> t ! k = s' ! k'"
      by (simp_all add: l)
    have A: "\<forall>k. k < j \<and> k \<noteq> i \<longrightarrow> t ! k = s ! k"
      using a s'k by auto
    have B: "\<forall>k. j \<le> k \<and> k < length s \<longrightarrow> Number (t ! i) \<le> Number (t ! k)"
    proof (intro allI impI)
      fix k assume k: "j \<le> k \<and> k < length s"
      show "Number (t ! i) \<le> Number (t ! k)"
      proof (cases "k = j")
        case True
        with a [of j] ij have "t ! k = s' ! j" by simp
        with c s'i show ?thesis by simp
      next
        case False
        with k b [of k] show ?thesis by simp
      qed
    qed
    have C: "Number (t ! i) \<le> Number (s ! i)" using c s'i by simp
    have D: "\<forall>k. i \<le> k \<and> k < length s \<longrightarrow> (\<exists>k'. i \<le> k' \<and> k' < length s \<and> t ! k = s ! k')"
    proof (intro allI impI)
      fix k assume k: "i \<le> k \<and> k < length s"
      with d obtain k1 where k1: "i \<le> k1" "k1 < length s" "t ! k = s' ! k1" by blast
      from s'from [OF k1(1,2)] obtain k2 where "i \<le> k2" "k2 < length s" "s' ! k1 = s ! k2" by blast
      with k1 show "\<exists>k'. i \<le> k' \<and> k' < length s \<and> t ! k = s ! k'" by auto
    qed
    from A B C D show ?thesis unfolding t by blast
  qed
qed

lemma sortOuter_sorted:
  assumes "\<forall>a b. a < i \<and> a < b \<and> b < length s \<longrightarrow> Number (s ! a) \<le> Number (s ! b)"
  shows "\<forall>a b. a < b \<and> b < length s \<longrightarrow> Number (sortOuter s i ! a) \<le> Number (sortOuter s i ! b)"
  using assms
proof (induction s i rule: sortOuter.induct)
  case (1 s i)
  show ?case
  proof (cases "i + 1 < length s")
    case False
    then have "sortOuter s i = s" by (subst sortOuter.simps) simp
    moreover from False have "\<And>a b. a < b \<Longrightarrow> b < length s \<Longrightarrow> a < i" by simp
    ultimately show ?thesis using "1.prems" by auto
  next
    case True
    define s1 where "s1 = sortInner s i (i + 1)"
    have e: "sortOuter s i = sortOuter s1 (i + 1)"
      using True by (subst sortOuter.simps) (simp add: s1_def)
    from True have il: "i < length s" by simp
    note P = sortInner_props [of i "i + 1" s, OF _ il, folded s1_def, simplified]
    from P have a: "\<And>k. k < i \<Longrightarrow> s1 ! k = s ! k"
      and b: "\<And>k. i < k \<Longrightarrow> k < length s \<Longrightarrow> Number (s1 ! i) \<le> Number (s1 ! k)"
      and d: "\<And>k. i \<le> k \<Longrightarrow> k < length s \<Longrightarrow> \<exists>k'. i \<le> k' \<and> k' < length s \<and> s1 ! k = s ! k'"
      by auto
    have inv: "\<forall>a b. a < i + 1 \<and> a < b \<and> b < length s1 \<longrightarrow> Number (s1 ! a) \<le> Number (s1 ! b)"
    proof (intro allI impI)
      fix x y assume h: "x < i + 1 \<and> x < y \<and> y < length s1"
      then have y: "y < length s" by (simp add: s1_def)
      show "Number (s1 ! x) \<le> Number (s1 ! y)"
      proof (cases "x = i")
        case True
        with h y b [of y] show ?thesis by simp
      next
        case False
        with h have xi: "x < i" by simp
        show ?thesis
        proof (cases "y < i")
          case True
          with a [of x] a [of y] xi "1.prems" h y show ?thesis by simp
        next
          case False
          then have "i \<le> y" by simp
          from d [OF this y] obtain k' where k': "i \<le> k'" "k' < length s" "s1 ! y = s ! k'" by blast
          with xi have "x < k'" by simp
          with "1.prems" xi k' have "Number (s ! x) \<le> Number (s ! k')" by blast
          with a [OF xi] k' show ?thesis by simp
        qed
      qed
    qed
    from "1.IH" [OF True, folded s1_def, OF inv] show ?thesis
      by (simp add: e s1_def)
  qed
qed

lemma sorted_sortByNumber: "sorted (map Number (sortByNumber cards))"
proof -
  have "\<forall>a b. a < b \<and> b < length cards \<longrightarrow>
          Number (sortByNumber cards ! a) \<le> Number (sortByNumber cards ! b)"
    unfolding sortByNumber_def by (rule sortOuter_sorted) simp
  then show ?thesis
    by (auto simp: sorted_iff_nth_mono_less length_sortByNumber)
qed

section \<open>Card conservation\<close>

subsection \<open>A new round deals the deck\<close>

lemma length_concat_Cards: "length (concat (map Cards ms)) = sum_list (map (\<lambda>m. length (Cards m)) ms)"
  by (induction ms) simp_all

lemma totalCards_cardsInPlay: "totalCards g = length (cardsInPlay g)"
  by (auto simp: totalCards_def cardsInPlay_def cardsOf_def bothPlayers_def List.map_filter_def
      length_concat_Cards split: option.splits)

lemma newDeck_length: "length newDeck = 40"
  by (simp add: newDeck_def)

lemma newDeck_distinct: "distinct newDeck"
  by (simp add: newDeck_def)

lemma conserved_total: "conserved g \<Longrightarrow> totalCards g = 40"
proof -
  assume "conserved g"
  then have "mset (cardsInPlay g) = mset newDeck" by (simp add: conserved_def)
  then have "length (cardsInPlay g) = length newDeck" by (metis size_mset)
  then show ?thesis by (simp add: totalCards_cardsInPlay newDeck_length)
qed

lemma deal_mset:
  "deal n h0 h1 cards = Some (a, b, rest) \<Longrightarrow>
   mset a + mset b + mset rest = mset h0 + mset h1 + mset cards"
proof (induction n h0 h1 cards rule: deal.induct)
  case (1 player0Hand player1Hand cards)
  then show ?case by simp
next
  case (2 n player0Hand player1Hand c0 c1 cards)
  from "2.prems" have "deal n (player0Hand @ [c0]) (player1Hand @ [c1]) cards = Some (a, b, rest)"
    by simp
  from "2.IH" [OF this] show ?case by simp
qed simp_all


lemma mset_butlast_last: "xs \<noteq> [] \<Longrightarrow> add_mset (last xs) (mset (butlast xs)) = mset xs"
  by (induction xs) auto

lemma startNewRound_conserved:
  assumes "startNewRound rt g = Some g'" and "shufflePermutes rt"
  shows "mset (cardsInPlay g') = mset (deck g) \<and>
         dom (Players g') = insert 0 (insert 1 (dom (Players g))) \<and>
         \<not> HasDiscardedThisTurn g' \<and> \<not> IsRoundFinished g'"
proof -
  from assms(1) obtain h0 h1 rest p0 p1 where
    d: "deal 7 [] [] (shuffle rt (deck g)) = Some (h0, h1, rest)"
    and p: "Players g 0 = Some p0" "Players g 1 = Some p1"
    by (auto simp: startNewRound_def Let_def split: Option.bind_splits prod.splits)
  define piles where "piles = (if \<not> IsEmpty rest
             then (case DrawCard rest of
                     Some (crd, pile) \<Rightarrow> (pile, AddCard [] crd)
                   | None \<Rightarrow> (rest, []))
             else (rest, []))"
  have pm: "mset (fst piles) + mset (snd piles) = mset rest"
    by (auto simp: piles_def IsEmpty_def DrawCard_def AddCard_def mset_butlast_last)
  from assms(1) d p have g': "DrawPile g' = fst piles" "DiscardPile g' = snd piles"
    "Players g' = (Players g)(0 \<mapsto> p0\<lparr>Hand := h0, Melds := []\<rparr>, 1 \<mapsto> p1\<lparr>Hand := h1, Melds := []\<rparr>)"
    "\<not> HasDiscardedThisTurn g'" "\<not> IsRoundFinished g'"
    by (auto simp: startNewRound_def Let_def piles_def split: Option.bind_splits prod.splits)
  from deal_mset [OF d] assms(2) have "mset h0 + mset h1 + mset rest = mset (deck g)"
    by (simp add: shufflePermutes_def)
  with pm g' have "mset (cardsInPlay g') = mset (deck g)"
    by (simp add: cardsInPlay_def cardsOf_def ac_simps)
  with g' show ?thesis by auto
qed


lemma foldl_WithMaxPoints:
  "\<exists>m. foldl (\<lambda>gs opt. opt gs) g0 (map WithMaxPoints points) = g0\<lparr>RuleMaxPoints := m\<rparr>"
proof (induction points arbitrary: g0)
  case Nil
  have "g0 = g0\<lparr>RuleMaxPoints := RuleMaxPoints g0\<rparr>" by simp
  then show ?case by (metis foldl_Nil list.simps(8))
next
  case (Cons x points)
  from Cons [of "g0\<lparr>RuleMaxPoints := x\<rparr>"] show ?case
    by (auto simp: WithMaxPoints_def)
qed

lemma New_conserved:
  assumes "shufflePermutes rt" and "New rt (map WithMaxPoints points) = Some g"
  shows "conserved g"
proof -
  let ?g0 = "\<lparr>RoundNumber = 0, TurnPlayerID = 0, TurnOpponentPlayerID = 1,
           Players = [0 \<mapsto> \<lparr>Hand = [], Melds = [], Score = 0\<rparr>,
                      1 \<mapsto> \<lparr>Hand = [], Melds = [], Score = 0\<rparr>],
           PossibleActions = [], DrawPile = [], DiscardPile = [],
           HasDrawnThisTurn = False, HasDiscardedThisTurn = False, KnockedPlayerID = - 1,
           IsRoundFinished = False, IsGameEnded = False, WinnerPlayerID = - 1,
           RoundsLog = [emptyRoundLog], RoundFinishedConfirmedPlayerIDs = [],
           RuleMaxPoints = DefaultMaxPoints, deck = newDeck\<rparr>"
  from foldl_WithMaxPoints [of ?g0 points] obtain m where
    m: "foldl (\<lambda>gs opt. opt gs) ?g0 (map WithMaxPoints points) = ?g0\<lparr>RuleMaxPoints := m\<rparr>" by blast
  from assms(2) have "startNewRound rt (?g0\<lparr>RuleMaxPoints := m\<rparr>) = Some g"
    unfolding New_def m .
  from startNewRound_conserved [OF this assms(1)] show ?thesis
    by (auto simp: conserved_def)
qed

subsection \<open>A valid meld has no card twice\<close>

lemma noDuplicateSuits_distinct:
  "noDuplicateSuits suits cards \<Longrightarrow> distinct (map Suit cards) \<and> (\<forall>c\<in>set cards. Suit c \<notin> suits)"
proof (induction cards arbitrary: suits)
  case Nil
  then show ?case by simp
next
  case (Cons crd cards)
  from Cons.prems have h: "Suit crd \<notin> suits" "noDuplicateSuits (insert (Suit crd) suits) cards"
    by (auto split: if_splits)
  from Cons.IH [OF h(2)] h(1) show ?case by auto
qed

lemma consecutiveNumbers_nth:
  assumes "consecutiveNumbers s" "i < length s"
  shows "Number (s ! i) = Number (s ! 0) + int i"
  using assms(2)
proof (induction i)
  case 0
  then show ?case by simp
next
  case (Suc i)
  from assms(1) Suc.prems have "Number (s ! Suc i) = Number (s ! (Suc i - 1)) + 1"
    by (simp add: consecutiveNumbers_def list_all_iff)
  with Suc show ?case by simp
qed

lemma consecutiveNumbers_distinct: "consecutiveNumbers s \<Longrightarrow> distinct s"
proof -
  assume c: "consecutiveNumbers s"
  have "\<And>i j. i < length s \<Longrightarrow> j < length s \<Longrightarrow> i \<noteq> j \<Longrightarrow> s ! i \<noteq> s ! j"
  proof
    fix i j assume h: "i < length s" "j < length s" "i \<noteq> j" "s ! i = s ! j"
    from h(4) have "Number (s ! i) = Number (s ! j)" by (rule arg_cong)
    then have "Number (s ! 0) + int i = Number (s ! 0) + int j"
      by (simp only: consecutiveNumbers_nth [OF c h(1)] consecutiveNumbers_nth [OF c h(2)])
    with h(3) show False by simp
  qed
  then show ?thesis by (simp add: distinct_conv_nth)
qed

lemma isValidMeld_distinct: "isValidMeld cards meldType \<Longrightarrow> distinct cards"
proof -
  assume v: "isValidMeld cards meldType"
  then consider "meld_isValidSet cards" | "meld_isValidRun cards"
    by (auto simp: isValidMeld_def split: if_splits)
  then show ?thesis
  proof cases
    case 1
    then have "noDuplicateSuits {} cards" by (simp add: meld_isValidSet_def split: if_splits)
    from noDuplicateSuits_distinct [OF this] show ?thesis by (simp add: distinct_map)
  next
    case 2
    then have "consecutiveNumbers (sortByNumber cards)"
      by (simp add: meld_isValidRun_def split: if_splits)
    then have "distinct (sortByNumber cards)" by (rule consecutiveNumbers_distinct)
    with mset_eq_imp_distinct_iff [OF mset_sortByNumber [of cards]] show ?thesis by blast
  qed
qed


subsection \<open>The effects keep the cards\<close>

lemma conserved_player:
  "conserved g \<Longrightarrow> Players g pid = Some p \<Longrightarrow> pid = 0 \<or> pid = 1"
  by (auto simp: conserved_def dom_def)

lemma conserved_distinct: "conserved g \<Longrightarrow> distinct (cardsInPlay g)"
  using mset_eq_imp_distinct_iff [of "cardsInPlay g" newDeck] newDeck_distinct
  by (simp add: conserved_def)

lemma DrawCard_Some:
  "DrawCard pile = Some (crd, rest) \<Longrightarrow> mset pile = add_mset crd (mset rest)"
  by (auto simp: DrawCard_def mset_butlast_last split: if_splits)

lemma cardsInPlay_mset:
  assumes "pid = 0 \<or> pid = 1" and "Players g pid = Some p"
  shows "mset (cardsInPlay g) =
         mset (DrawPile g) + mset (DiscardPile g) + mset (Hand p) +
         mset (concat (map Cards (Melds p))) + mset (cardsOf g (1 - pid))"
  using assms by (auto simp: cardsInPlay_def cardsOf_def)

lemma cardsOf_other:
  "pid = 0 \<or> pid = 1 \<Longrightarrow> cardsOf (g\<lparr>Players := (Players g)(pid \<mapsto> p')\<rparr>) (1 - pid) = cardsOf g (1 - pid)"
  by (auto simp: cardsOf_def)

lemma distinct_hand:
  assumes "conserved g" "Players g pid = Some p"
  shows "distinct (Hand p)"
proof -
  from conserved_distinct [OF assms(1)] have "distinct (cardsOf g 0)" "distinct (cardsOf g 1)"
    by (simp_all add: cardsInPlay_def)
  with conserved_player [OF assms] assms(2) show ?thesis
    by (auto simp: cardsOf_def)
qed


lemma update_conserved:
  assumes "conserved g" and "Players g pid = Some p"
    and "Players g1 = (Players g)(pid \<mapsto> p')"
    and "mset (DrawPile g1) + mset (DiscardPile g1) + mset (Hand p') +
           mset (concat (map Cards (Melds p'))) =
         mset (DrawPile g) + mset (DiscardPile g) + mset (Hand p) +
           mset (concat (map Cards (Melds p)))"
  shows "dom (Players g1) = {0, 1} \<and> mset (cardsInPlay g1) = mset newDeck"
proof -
  from conserved_player [OF assms(1,2)] have pid: "pid = 0 \<or> pid = 1" .
  from assms(3) have p': "Players g1 pid = Some p'" by simp
  from pid assms(3) have o: "cardsOf g1 (1 - pid) = cardsOf g (1 - pid)"
    by (auto simp: cardsOf_def)
  have "mset (cardsInPlay g1) = mset (cardsInPlay g)"
    unfolding cardsInPlay_mset [OF pid p'] cardsInPlay_mset [OF pid assms(2)] o
    using assms(4) by simp
  moreover from pid assms(1,2,3) have "dom (Players g1) = {0, 1}"
    by (auto simp: conserved_def)
  ultimately show ?thesis using assms(1) by (simp add: conserved_def)
qed

lemma draw_conserved:
  assumes "conserved g" and "drawFromDrawPile_Run a g = Some (None, g1)"
  shows "dom (Players g1) = {0, 1} \<and> mset (cardsInPlay g1) = mset newDeck \<and>
         \<not> IsRoundFinished g1 \<and> IsGameEnded g1 = IsGameEnded g \<and> \<not> HasDiscardedThisTurn g1"
proof -
  from assms(2) have ne: "\<not> IsEmpty (DrawPile g)"
    by (auto simp: drawFromDrawPile_Run_def split: if_splits)
  then obtain crd pile where dc: "DrawCard (DrawPile g) = Some (crd, pile)"
    by (auto simp: IsEmpty_def DrawCard_def)
  with assms(2) obtain p where p: "Players g (PlayerID a) = Some p"
    and g1: "g1 = g\<lparr>DrawPile := pile,
                   Players := (Players g)(PlayerID a \<mapsto> p\<lparr>Hand := Hand p @ [crd]\<rparr>),
                   HasDrawnThisTurn := True\<rparr>"
    by (auto simp: drawFromDrawPile_Run_def split: if_splits Option.bind_splits)
  from DrawCard_Some [OF dc] have m: "mset (DrawPile g) = add_mset crd (mset pile)" .
  have "dom (Players g1) = {0, 1} \<and> mset (cardsInPlay g1) = mset newDeck"
    by (rule update_conserved [OF assms(1) p, of _ "p\<lparr>Hand := Hand p @ [crd]\<rparr>"])
       (simp_all add: g1 m)
  then show ?thesis using assms(1) by (simp add: conserved_def g1)
qed

lemma drawDiscard_conserved:
  assumes "conserved g" and "drawFromDiscardPile_Run a g = Some (None, g1)"
  shows "dom (Players g1) = {0, 1} \<and> mset (cardsInPlay g1) = mset newDeck \<and>
         \<not> IsRoundFinished g1 \<and> IsGameEnded g1 = IsGameEnded g \<and> \<not> HasDiscardedThisTurn g1"
proof -
  from assms(2) have ne: "\<not> IsEmpty (DiscardPile g)"
    by (auto simp: drawFromDiscardPile_Run_def split: if_splits)
  then obtain crd pile where dc: "DrawCard (DiscardPile g) = Some (crd, pile)"
    by (auto simp: IsEmpty_def DrawCard_def)
  with assms(2) obtain p where p: "Players g (PlayerID a) = Some p"
    and g1: "g1 = g\<lparr>DiscardPile := pile,
                   Players := (Players g)(PlayerID a \<mapsto> p\<lparr>Hand := Hand p @ [crd]\<rparr>),
                   HasDrawnThisTurn := True\<rparr>"
    by (auto simp: drawFromDiscardPile_Run_def split: if_splits Option.bind_splits)
  from DrawCard_Some [OF dc] have m: "mset (DiscardPile g) = add_mset crd (mset pile)" .
  have "dom (Players g1) = {0, 1} \<and> mset (cardsInPlay g1) = mset newDeck"
    by (rule update_conserved [OF assms(1) p, of _ "p\<lparr>Hand := Hand p @ [crd]\<rparr>"])
       (simp_all add: g1 m)
  then show ?thesis using assms(1) by (simp add: conserved_def g1)
qed


lemma filter_absent: "crd \<notin> set hand \<Longrightarrow> filter (\<lambda>c. c \<noteq> crd) hand = hand"
  by (induction hand) auto

lemma mset_remove_distinct:
  "distinct hand \<Longrightarrow> crd \<in> set hand \<Longrightarrow> newHand = filter (\<lambda>c. c \<noteq> crd) hand \<Longrightarrow>
   add_mset crd (mset newHand) = mset hand"
proof (induction hand arbitrary: newHand)
  case Nil
  then show ?case by simp
next
  case (Cons x hand)
  show ?case
  proof (cases "x = crd")
    case True
    with Cons.prems have "crd \<notin> set hand" by simp
    from filter_absent [OF this] True Cons.prems(3) show ?thesis by simp
  next
    case False
    with Cons.prems have "distinct hand" "crd \<in> set hand" by simp_all
    from Cons.IH [OF this refl] False Cons.prems(3) show ?thesis by simp
  qed
qed

lemma discard_conserved:
  assumes "conserved g" and "discardCard_Run a crd g = Some (None, g1)"
  shows "dom (Players g1) = {0, 1} \<and> mset (cardsInPlay g1) = mset newDeck \<and>
         \<not> IsRoundFinished g1 \<and> IsGameEnded g1 = IsGameEnded g"
proof -
  define newHand where "newHand p = filter (\<lambda>c. c \<noteq> crd) (Hand p)" for p :: Player
  from assms(2) obtain p where p: "Players g (PlayerID a) = Some p" and c: "crd \<in> set (Hand p)"
    and g1: "g1 = g\<lparr>Players := (Players g)(PlayerID a \<mapsto> p\<lparr>Hand := newHand p\<rparr>),
                   DiscardPile := AddCard (DiscardPile g) crd,
                   HasDiscardedThisTurn := True\<rparr>"
    by (auto simp: discardCard_Run_def Let_def newHand_def split: if_splits Option.bind_splits)
  from mset_remove_distinct [OF distinct_hand [OF assms(1) p] c newHand_def]
  have m: "mset (Hand p) = add_mset crd (mset (newHand p))" by simp
  have "dom (Players g1) = {0, 1} \<and> mset (cardsInPlay g1) = mset newDeck"
    by (rule update_conserved [OF assms(1) p, of _ "p\<lparr>Hand := newHand p\<rparr>"])
       (simp_all add: g1 m AddCard_def)
  then show ?thesis using assms(1) by (simp add: conserved_def g1)
qed

lemma mset_filter_partition:
  "mset (filter (\<lambda>c. \<not> P c) hand) + mset (filter P hand) = mset hand"
  by (induction hand) auto

lemma mset_filter_out:
  assumes "distinct hand" "distinct cards" "set cards \<subseteq> set hand"
    and "newHand = filter (\<lambda>c. c \<notin> set cards) hand"
  shows "mset newHand + mset cards = mset hand"
proof -
  have "mset (filter (\<lambda>c. c \<in> set cards) hand) = mset cards"
    using assms(1,2,3) by (intro set_eq_iff_mset_eq_distinct [THEN iffD1]) auto
  then have a: "filter_mset (\<lambda>c. c \<in> set cards) (mset hand) = mset cards" by simp
  have "mset hand = filter_mset (\<lambda>c. c \<in> set cards) (mset hand) +
                    filter_mset (\<lambda>c. c \<notin> set cards) (mset hand)"
    by (rule multiset_partition)
  then have "mset hand = mset cards + filter_mset (\<lambda>c. c \<notin> set cards) (mset hand)"
    unfolding a .
  then show ?thesis by (simp add: assms(4) add.commute)
qed

lemma meld_conserved:
  assumes "conserved g" and "meldCards_Run a cards meldType g = Some (None, g1)"
  shows "dom (Players g1) = {0, 1} \<and> mset (cardsInPlay g1) = mset newDeck \<and>
         \<not> IsRoundFinished g1 \<and> IsGameEnded g1 = IsGameEnded g \<and>
         HasDiscardedThisTurn g1 = HasDiscardedThisTurn g"
proof -
  define newHand where
    "newHand p = filter (\<lambda>c. \<not> list_ex (\<lambda>meldCard. c = meldCard) cards) (Hand p)" for p :: Player
  from assms(2) obtain p where p: "Players g (PlayerID a) = Some p"
    and sub: "list_all (\<lambda>crd. crd \<in> set (Hand p)) cards" and v: "isValidMeld cards meldType"
    and g1: "g1 = g\<lparr>Players := (Players g)(PlayerID a \<mapsto>
                     p\<lparr>Hand := newHand p,
                        Melds := Melds p @ [\<lparr>Type = meldType, Cards = cards\<rparr>]\<rparr>)\<rparr>"
    by (auto simp: meldCards_Run_def Let_def newHand_def split: if_splits Option.bind_splits)
  have f: "newHand p = filter (\<lambda>c. c \<notin> set cards) (Hand p)"
    unfolding newHand_def by (rule filter_cong) (auto simp: list_ex_iff)
  from sub have "set cards \<subseteq> set (Hand p)" by (auto simp: list_all_iff)
  from mset_filter_out [OF distinct_hand [OF assms(1) p] isValidMeld_distinct [OF v] this f]
  have m: "mset (Hand p) = mset (newHand p) + mset cards" by simp
  have "dom (Players g1) = {0, 1} \<and> mset (cardsInPlay g1) = mset newDeck"
    by (rule update_conserved [OF assms(1) p,
          of _ "p\<lparr>Hand := newHand p, Melds := Melds p @ [\<lparr>Type = meldType, Cards = cards\<rparr>]\<rparr>"])
       (simp_all add: g1 m)
  then show ?thesis using assms(1) by (simp add: conserved_def g1)
qed

lemma Run_conserved:
  assumes "conserved g" and "Run a g = Some (None, g1)"
  shows "dom (Players g1) = {0, 1} \<and> mset (cardsInPlay g1) = mset newDeck \<and>
         \<not> IsRoundFinished g1 \<and> IsGameEnded g1 = IsGameEnded g \<and>
         (HasDiscardedThisTurn g1 \<longrightarrow> YieldsTurn a g1)"
proof (cases a)
  case (ActionDrawFromDrawPile x)
  with assms draw_conserved [of g x g1] show ?thesis by simp
next
  case (ActionDrawFromDiscardPile x)
  with assms drawDiscard_conserved [of g x g1] show ?thesis by simp
next
  case (ActionDiscardCard x crd)
  with assms discard_conserved [of g x crd g1] show ?thesis by simp
next
  case (ActionMeldCards x cards meldType)
  with assms meld_conserved [of g x cards meldType g1] show ?thesis by simp
next
  case (ActionKnock x)
  with assms show ?thesis
    by (auto simp: knock_Run_def conserved_def split: if_splits Option.bind_splits)
next
  case (ActionConfirmRoundFinished x)
  with assms show ?thesis
    by (auto simp: confirm_Run_def confirm_IsPossible_def conserved_def split: if_splits Option.bind_splits)
qed


lemma YieldsTurn_state: "YieldsTurn a g = YieldsTurn a g'"
  by (cases a) simp_all

lemma cardsOf_cong:
  "map_option Hand (Players g' pid) = map_option Hand (Players g pid) \<Longrightarrow>
   map_option Melds (Players g' pid) = map_option Melds (Players g pid) \<Longrightarrow>
   cardsOf g' pid = cardsOf g pid"
  by (cases "Players g pid"; cases "Players g' pid") (simp_all add: cardsOf_def)

lemma afterRun_conserved:
  assumes "afterRun rt a g1 = Some (None, g')"
    and "dom (Players g1) = {0, 1}" and "mset (cardsInPlay g1) = mset newDeck"
    and "\<not> IsRoundFinished g1" and "\<not> IsGameEnded g1"
    and "HasDiscardedThisTurn g1 \<longrightarrow> YieldsTurn a g1"
  shows "conserved g'"
proof -
  from assms(1) obtain gl where gl: "(if GetName a \<noteq> CONFIRM_ROUND_FINISHED
                 then appendActionLog a g1 else Some g1) = Some gl"
    by (auto simp: afterRun_def split: Option.bind_splits)
  from logged_frame [OF gl] obtain rls where rls: "gl = g1\<lparr>RoundsLog := rls\<rparr>" by blast
  let ?g3 = "turnToUnconfirmed (switchTurn a gl)"
  from assms(1,4) gl rls obtain g4 where g4: "endOfGame (rangePlayers rt) ?g3 = Some g4"
    and r: "refreshPossibleActions g4 = Some g'"
    by (auto simp: afterRun_def split: Option.bind_splits)
  from assms(4,5,6) have d3: "\<not> HasDiscardedThisTurn ?g3"
    using YieldsTurn_state [of a gl g1] by (auto simp: switchTurn_def rls)
  note f = endOfGame_frame [OF g4]
  from refreshPossibleActions_frame [OF r] have e: "Players g' = Players g4"
    "DrawPile g' = DrawPile g4" "DiscardPile g' = DiscardPile g4"
    "IsRoundFinished g' = IsRoundFinished g4" "HasDiscardedThisTurn g' = HasDiscardedThisTurn g4"
    by (auto simp: changeTurn_def)
  have c: "\<And>pid. cardsOf g' pid = cardsOf g1 pid"
    by (rule cardsOf_cong) (use f e in \<open>simp_all add: rls\<close>)
  have "cardsInPlay g' = cardsInPlay g1"
    using f e by (simp add: cardsInPlay_def c rls)
  moreover have "dom (Players g') = dom (Players g1)"
  proof -
    have "\<And>pid. (Players g' pid = None) = (Players g1 pid = None)"
      using f e by (metis (no_types, lifting) option.map_disc_iff rls switchTurn_simps(1)
          turnToUnconfirmed_simps(1) GameState.select_convs(4) GameState.surjective
          GameState.update_convs(14))
    then show ?thesis by (auto simp: dom_def)
  qed
  moreover from f e d3 have "\<not> HasDiscardedThisTurn g'" by simp
  moreover from f e assms(4) have "\<not> IsRoundFinished g'" by (simp add: rls)
  ultimately show ?thesis using assms(2,3) by (simp add: conserved_def)
qed


lemma reachable_conserved: "reachable g \<Longrightarrow> conserved g"
proof (induction rule: reachable.induct)
  case (fresh rt points g)
  then show ?case by (rule New_conserved)
next
  case (step g rt action g')
  show ?case
  proof (cases action)
    case None
    with step show ?thesis by (simp add: RunAction_def)
  next
    case (Some a)
    with step.hyps(2) have r: "RunAction rt g (Some a) = Some (None, g')" by simp
    from RunAction_success [OF r] obtain g1 where
      e: "\<not> IsGameEnded g" and run: "Run a g = Some (None, g1)"
      and after: "afterRun rt a g1 = Some (None, g')" by blast
    from Run_conserved [OF step.IH run] e
    show ?thesis by (intro afterRun_conserved [OF after]) simp_all
  qed
qed

lemma second_deal:
  "map_option totalCards (New exampleRuntime []) = Some 40 \<and>
   map_option totalCards (do { g \<leftarrow> New exampleRuntime []; startNewRound exampleRuntime g }) = Some 26"
  by code_simp

text \<open>
  Claim C3. In every state reachable from a fresh game by successful \<^verbatim>\<open>RunAction\<close> calls,
  the draw pile, the discard pile, the hands of both players and the melds of both players
  hold 40 cards together, and they are the cards of the deck, each once. In all these
  states the first round is running (\<open>reachable_conserved\<close>): \<^verbatim>\<open>RunAction\<close> clears
  \<^verbatim>\<open>HasDiscardedThisTurn\<close> right after a discard, so that a knock is never legal and no
  round is ever finished. The property depends on that: \<^verbatim>\<open>startNewRound\<close> deals from the
  cards the deck has left, and as \<^verbatim>\<open>shuffle\<close> only reorders them, a second deal would hand
  out the remaining 26 cards (\<open>second_deal\<close>).
\<close>

theorem card_conservation:
  "reachable g \<Longrightarrow> totalCards g = 40 \<and> mset (cardsInPlay g) = mset newDeck"
  by (auto dest!: reachable_conserved simp: conserved_total) (simp add: conserved_def)

theorem card_conservation_witness:
  "\<exists>g. afterFirstDraw 100 = Some g \<and> length (DrawPile g) = 24 \<and>
       totalCards g = 40 \<and> mset (cardsInPlay g) = mset newDeck"
proof -
  have "map_option (\<lambda>g. length (DrawPile g)) (afterFirstDraw 100) = Some 24"
    by code_simp
  then obtain g where g: "afterFirstDraw 100 = Some g" and l: "length (DrawPile g) = 24"
    by auto
  then obtain g0 where g0: "New exampleRuntime [WithMaxPoints 100] = Some g0"
    and r: "RunAction exampleRuntime g0 (Some (NewActionDrawFromDrawPile 1)) = Some (None, g)"
    by (auto simp: afterFirstDraw_def split: Option.bind_splits option.splits)
  have "shufflePermutes exampleRuntime"
    by (simp add: shufflePermutes_def exampleRuntime_def)
  with g0 have "reachable g0"
    using reachable.fresh [of exampleRuntime "[100]" g0] by simp
  from this r have "reachable g" by (rule reachable.step)
  from card_conservation [OF this] g l show ?thesis by simp
qed

section \<open>Properties of the meld-candidate generator\<close>

subsection \<open>Grouping and set candidates\<close>

lemma map_fst_group_add:
  "map fst (group_add k crd groups) =
     (if k \<in> set (map fst groups) then map fst groups else map fst groups @ [k])"
  by (induction groups) force+

lemma distinct_group_add:
  "distinct (map fst groups) \<Longrightarrow> distinct (map fst (group_add k crd groups))"
  by (simp add: map_fst_group_add)

lemma map_of_group_add:
  "map_of (group_add k crd groups) k' =
     ((map_of groups)(k \<mapsto> (case map_of groups k of None \<Rightarrow> [crd] | Some cards \<Rightarrow> cards @ [crd]))) k'"
  by (induction groups) auto


lemma groupBy_snoc: "groupBy key (hand @ [crd]) = group_add (key crd) crd (groupBy key hand)"
  by (simp add: groupBy_def)

lemma groupBy_distinct: "distinct (map fst (groupBy key hand))"
proof (induction hand rule: rev_induct)
  case Nil
  then show ?case by (simp add: groupBy_def)
next
  case (snoc crd hand)
  then show ?case by (simp only: groupBy_snoc distinct_group_add)
qed

lemma map_of_groupBy:
  "map_of (groupBy key hand) k =
     (if filter (\<lambda>crd. key crd = k) hand = [] then None
      else Some (filter (\<lambda>crd. key crd = k) hand))"
proof (induction hand rule: rev_induct)
  case Nil
  then show ?case by (simp add: groupBy_def)
next
  case (snoc crd hand)
  show ?case
  proof (cases "key crd = k")
    case True
    with snoc show ?thesis
      by (simp add: groupBy_snoc map_of_group_add)
  next
    case False
    with snoc show ?thesis
      by (simp add: groupBy_snoc map_of_group_add)
  qed
qed

lemma groupBy_set:
  "(k, cards) \<in> set (groupBy key hand) \<longleftrightarrow>
     cards = filter (\<lambda>crd. key crd = k) hand \<and> cards \<noteq> []"
proof -
  have "(k, cards) \<in> set (groupBy key hand) \<longleftrightarrow> map_of (groupBy key hand) k = Some cards"
    using groupBy_distinct [of key hand] by simp
  then show ?thesis
    by (auto simp: map_of_groupBy)
qed


lemma generateCombinations_Cons:
  "combo \<in> set (generateCombinations (first # remaining) (Suc k)) \<Longrightarrow>
   \<not> length (first # remaining) < Suc k \<and>
   ((\<exists>c. combo = first # c \<and> c \<in> set (generateCombinations remaining k)) \<or>
    combo \<in> set (generateCombinations remaining (Suc k)))"
  by (cases "length (first # remaining) < Suc k") auto

lemma generateCombinations_sound:
  "combo \<in> set (generateCombinations cards k) \<Longrightarrow> length combo = k \<and> set combo \<subseteq> set cards"
proof (induction cards k arbitrary: combo rule: generateCombinations.induct)
  case (1 cards)
  then show ?case by simp
next
  case (2 k)
  then show ?case by simp
next
  case (3 first remaining k)
  from generateCombinations_Cons [OF "3.prems"] have n: "\<not> length (first # remaining) < Suc k"
    and d: "(\<exists>c. combo = first # c \<and> c \<in> set (generateCombinations remaining k)) \<or>
            combo \<in> set (generateCombinations remaining (Suc k))"
    by blast+
  from d show ?case
  proof
    assume "\<exists>c. combo = first # c \<and> c \<in> set (generateCombinations remaining k)"
    then obtain c where c: "combo = first # c" "c \<in> set (generateCombinations remaining k)"
      by blast
    from "3.IH"(1) [OF n c(2)] c(1) show ?thesis by auto
  next
    assume b: "combo \<in> set (generateCombinations remaining (Suc k))"
    from "3.IH"(2) [OF n b] show ?thesis by auto
  qed
qed


lemma isValidSet_loop_sound:
  "isValidSet_loop rank suits cards \<Longrightarrow>
   (\<forall>crd\<in>set cards. Number crd = rank \<and> Suit crd \<notin> suits) \<and> distinct (map Suit cards)"
proof (induction cards arbitrary: suits)
  case Nil
  then show ?case by simp
next
  case (Cons crd cards)
  from Cons.prems have h: "Number crd = rank" "Suit crd \<notin> suits"
    "isValidSet_loop rank (insert (Suit crd) suits) cards"
    by (auto split: if_splits)
  from Cons.IH [OF h(3)] h(1,2) show ?case
    by auto
qed

lemma isValidSet_sound:
  assumes "isValidSet cards"
  shows "(\<forall>c\<in>set cards. \<forall>c'\<in>set cards. Number c = Number c') \<and> distinct (map Suit cards)"
proof -
  from assms have "isValidSet_loop (Number (cards ! 0)) {} cards"
    by (simp add: isValidSet_def split: if_splits)
  from isValidSet_loop_sound [OF this] show ?thesis by simp
qed

lemma generateSetMeldActions_sound:
  assumes "action \<in> set (generateSetMeldActions hand playerID)"
  shows "\<exists>combo. action = NewActionMeldCards combo MeldTypeSet playerID \<and> length combo = 3 \<and>
           set combo \<subseteq> set hand \<and>
           (\<forall>c\<in>set combo. \<forall>c'\<in>set combo. Number c = Number c') \<and> distinct (map Suit combo)"
proof -
  from assms obtain rank cards combo where
    g: "(rank, cards) \<in> set (groupBy Number hand)" and
    c: "combo \<in> set (generateCombinations cards 3)" "isValidSet combo" and
    a: "action = NewActionMeldCards combo MeldTypeSet playerID"
    unfolding generateSetMeldActions_def
    by (auto simp del: generateCombinations.simps split: if_splits)
  from g have "set cards \<subseteq> set hand" by (auto simp: groupBy_set)
  with generateCombinations_sound [OF c(1)] isValidSet_sound [OF c(2)] a show ?thesis
    by blast
qed


lemma runEnd_less: "i < length s \<Longrightarrow> runEnd s i < length s"
  by (induction s i rule: runEnd.induct) (subst runEnd.simps, auto)

lemma runEnd_steps:
  "i \<le> k \<Longrightarrow> k < runEnd s i \<Longrightarrow> Number (s ! (k + 1)) = Number (s ! k) + 1"
proof (induction s i rule: runEnd.induct)
  case (1 s i)
  show ?case
  proof (cases "i + 1 < length s \<and> Number (s ! (i + 1)) = Number (s ! i) + 1")
    case True
    then have e: "runEnd s i = runEnd s (i + 1)" by (subst runEnd.simps) simp
    show ?thesis
    proof (cases "k = i")
      case True
      with \<open>i + 1 < length s \<and> Number (s ! (i + 1)) = Number (s ! i) + 1\<close> show ?thesis by simp
    next
      case False
      with "1.prems" have "i + 1 \<le> k" by simp
      from "1.IH" [OF True this] "1.prems" e show ?thesis by simp
    qed
  next
    case False
    then have "runEnd s i = i" by (subst runEnd.simps) auto
    with "1.prems" show ?thesis by simp
  qed
qed

lemma runEnd_stop:
  "runEnd s i + 1 < length s \<Longrightarrow> Number (s ! (runEnd s i + 1)) \<noteq> Number (s ! runEnd s i) + 1"
proof (induction s i rule: runEnd.induct)
  case (1 s i)
  show ?case
  proof (cases "i + 1 < length s \<and> Number (s ! (i + 1)) = Number (s ! i) + 1")
    case True
    then have e: "runEnd s i = runEnd s (i + 1)" by (subst runEnd.simps) simp
    from "1.IH" [OF True] "1.prems" e show ?thesis by simp
  next
    case False
    then have "runEnd s i = i" by (subst runEnd.simps) auto
    with False "1.prems" show ?thesis by auto
  qed
qed

lemma in_concat_map_map:
  "x \<in> set (concat (map (\<lambda>a. map (f a) (h a)) as)) \<longleftrightarrow> (\<exists>a\<in>set as. \<exists>b\<in>set (h a). x = f a b)"
  by auto

lemma subRuns_set:
  "run \<in> set (subRuns runCards) \<longleftrightarrow>
     (\<exists>len startIdx. 3 \<le> len \<and> startIdx + len \<le> length runCards \<and>
        run = take len (drop startIdx runCards))"
proof -
  have "run \<in> set (subRuns runCards) \<longleftrightarrow>
        (\<exists>len\<in>set [3..<length runCards + 1]. \<exists>startIdx\<in>set [0..<length runCards - len + 1].
            run = take len (drop startIdx runCards))"
    unfolding subRuns_def by (rule in_concat_map_map)
  also have "\<dots> \<longleftrightarrow> (\<exists>len startIdx. 3 \<le> len \<and> startIdx + len \<le> length runCards \<and>
        run = take len (drop startIdx runCards))"
  proof -
    have "\<And>len startIdx. (len \<in> set [3..<length runCards + 1] \<and> startIdx \<in> set [0..<length runCards - len + 1])
        \<longleftrightarrow> (3 \<le> len \<and> startIdx + len \<le> length runCards)"
      by auto
    then show ?thesis by (metis (no_types, lifting))
  qed
  finally show ?thesis .
qed

lemma consecutiveFrom_iff:
  "consecutiveFrom s i n \<longleftrightarrow> (\<forall>k. k + 1 < n \<longrightarrow> Number (s ! (i + k + 1)) = Number (s ! (i + k)) + 1)"
  by (auto simp: consecutiveFrom_def list_all_iff)

lemma slice_of_slice:
  assumes "i + L \<le> length s" "st + len \<le> L"
  shows "take len (drop st (take L (drop i s))) = take len (drop (i + st) s)"
proof -
  have "drop st (take L (drop i s)) = take (L - st) (drop (i + st) s)"
    by (simp add: drop_take add.commute)
  with assms show ?thesis by simp
qed

lemma findRunsFrom_sound:
  "run \<in> set (findRunsFrom s i) \<Longrightarrow>
   \<exists>st len. 3 \<le> len \<and> st + len \<le> length s \<and> run = take len (drop st s) \<and> consecutiveFrom s st len"
proof (induction s i rule: findRunsFrom.induct)
  case (1 s i)
  show ?case
  proof (cases "i < length s")
    case False
    with "1.prems" show ?thesis by (subst (asm) findRunsFrom.simps) simp
  next
    case True
    define e where "e = runEnd s i"
    define L where "L = e - i + 1"
    have ie: "i \<le> e" "e < length s"
      using runEnd_ge [of i s] runEnd_less [OF True] by (simp_all add: e_def)
    then have iL: "i + L \<le> length s" by (simp add: L_def)
    from "1.prems" True have
      "run \<in> set (if L \<ge> 3 then subRuns (take L (drop i s)) else []) \<or>
       run \<in> set (findRunsFrom s (e + 1))"
      by (subst (asm) findRunsFrom.simps) (simp add: e_def L_def)
    then show ?thesis
    proof
      assume "run \<in> set (if L \<ge> 3 then subRuns (take L (drop i s)) else [])"
      then have "run \<in> set (subRuns (take L (drop i s)))" by (simp split: if_splits)
      then obtain len st where h: "3 \<le> len" "st + len \<le> length (take L (drop i s))"
        "run = take len (drop st (take L (drop i s)))"
        unfolding subRuns_set by blast
      from h(2) iL have b: "st + len \<le> L" by simp
      from slice_of_slice [OF iL b] h(3) have r: "run = take len (drop (i + st) s)" by simp
      have "consecutiveFrom s (i + st) len"
        unfolding consecutiveFrom_iff
      proof (intro allI impI)
        fix k assume "k + 1 < len"
        with b have "i \<le> i + st + k" "i + st + k < e" by (simp_all add: L_def)
        from runEnd_steps [OF this [unfolded e_def]] show
          "Number (s ! (i + st + k + 1)) = Number (s ! (i + st + k)) + 1" by simp
      qed
      with h(1) b iL r show ?thesis
        by (intro exI [of _ "i + st"] exI [of _ len]) simp
    next
      assume "run \<in> set (findRunsFrom s (e + 1))"
      with "1.IH" [OF True] show ?thesis by (simp add: e_def)
    qed
  qed
qed

lemma findRunsFrom_complete:
  "i \<le> st \<Longrightarrow> 3 \<le> len \<Longrightarrow> st + len \<le> length s \<Longrightarrow> consecutiveFrom s st len \<Longrightarrow>
   take len (drop st s) \<in> set (findRunsFrom s i)"
proof (induction s i rule: findRunsFrom.induct)
  case (1 s i)
  from "1.prems" have True: "i < length s" by simp
  define e where "e = runEnd s i"
  define L where "L = e - i + 1"
  have ie: "i \<le> e" "e < length s"
    using runEnd_ge [of i s] runEnd_less [OF True] by (simp_all add: e_def)
  then have iL: "i + L \<le> length s" by (simp add: L_def)
  have unfold: "set (findRunsFrom s i) =
      set (if L \<ge> 3 then subRuns (take L (drop i s)) else []) \<union> set (findRunsFrom s (e + 1))"
    using True by (subst findRunsFrom.simps) (simp add: e_def L_def)
  show ?case
  proof (cases "st \<le> e")
    case True
    have "st + len \<le> e + 1"
    proof (rule ccontr)
      assume "\<not> st + len \<le> e + 1"
      then have a: "e + 1 < st + len" by simp
      with "1.prems" have l: "e + 1 < length s" by simp
      from a True have "(e - st) + 1 < len" by simp
      with "1.prems"(4) have "Number (s ! (st + (e - st) + 1)) = Number (s ! (st + (e - st))) + 1"
        unfolding consecutiveFrom_iff by blast
      with True have "Number (s ! (e + 1)) = Number (s ! e) + 1" by simp
      with runEnd_stop [of s i] l show False by (simp add: e_def)
    qed
    with "1.prems" have b: "(st - i) + len \<le> L" and L3: "3 \<le> L" by (simp_all add: L_def)
    from slice_of_slice [OF iL b] "1.prems"(1)
    have "take len (drop st s) = take len (drop (st - i) (take L (drop i s)))" by simp
    moreover have "take len (drop (st - i) (take L (drop i s))) \<in> set (subRuns (take L (drop i s)))"
      unfolding subRuns_set using b iL "1.prems"(2)
      by (intro exI [of _ len] exI [of _ "st - i"]) simp
    ultimately show ?thesis using L3 by (simp add: unfold)
  next
    case False
    then have "e + 1 \<le> st" by simp
    from "1.IH" [OF \<open>i < length s\<close> this [unfolded e_def] "1.prems"(2,3,4)]
    show ?thesis by (simp add: unfold e_def)
  qed
qed

subsection \<open>Run candidates\<close>

lemma generateRunMeldActions_sound:
  assumes "action \<in> set (generateRunMeldActions hand playerID)"
  shows "\<exists>run. action = NewActionMeldCards run MeldTypeRun playerID \<and> 3 \<le> length run \<and>
           set run \<subseteq> set hand \<and> (\<forall>c\<in>set run. \<forall>c'\<in>set run. Suit c = Suit c') \<and>
           (\<forall>i. Suc i < length run \<longrightarrow> Number (run ! Suc i) = Number (run ! i) + 1)"
proof -
  from assms obtain suit cards run where
    g: "(suit, cards) \<in> set (groupBy Suit hand)" and
    r: "run \<in> set (findConsecutiveRuns (sortByNumber cards))" and
    a: "action = NewActionMeldCards run MeldTypeRun playerID"
    unfolding generateRunMeldActions_def by (auto split: if_splits)
  define s where "s = sortByNumber cards"
  from r obtain st len where h: "3 \<le> len" "st + len \<le> length s" "run = take len (drop st s)"
    "consecutiveFrom s st len"
    unfolding findConsecutiveRuns_def s_def by (blast dest: findRunsFrom_sound)
  from h have len: "length run = len" by simp
  from g have c: "cards = filter (\<lambda>crd. Suit crd = suit) hand" by (simp add: groupBy_set)
  have "set run \<subseteq> set s" unfolding h(3) by (meson set_drop_subset set_take_subset subset_trans)
  then have sub: "set run \<subseteq> set cards" by (simp add: s_def set_sortByNumber)
  with c have suit: "\<forall>c\<in>set run. Suit c = suit" and hand: "set run \<subseteq> set hand" by auto
  have "\<forall>i. Suc i < length run \<longrightarrow> Number (run ! Suc i) = Number (run ! i) + 1"
  proof (intro allI impI)
    fix i assume "Suc i < length run"
    with len have i: "i + 1 < len" by simp
    with h(4) have "Number (s ! (st + i + 1)) = Number (s ! (st + i)) + 1"
      unfolding consecutiveFrom_iff by blast
    moreover from i h(2) have "run ! Suc i = s ! (st + i + 1)" "run ! i = s ! (st + i)"
      unfolding h(3) by (simp_all add: add.commute)
    ultimately show "Number (run ! Suc i) = Number (run ! i) + 1" by simp
  qed
  with a h(1) len hand suit show ?thesis by auto
qed

lemma generateRunMeldActions_complete:
  assumes "3 \<le> len" "st + len \<le> length (suitCards suit hand)"
    and "consecutiveFrom (suitCards suit hand) st len"
  shows "NewActionMeldCards (take len (drop st (suitCards suit hand))) MeldTypeRun playerID
           \<in> set (generateRunMeldActions hand playerID)"
proof -
  define cards where "cards = filter (\<lambda>crd. Suit crd = suit) hand"
  have s: "suitCards suit hand = sortByNumber cards" by (simp add: suitCards_def cards_def)
  from assms(1,2) have l: "3 \<le> length cards" by (simp add: s length_sortByNumber)
  then have "cards \<noteq> []" by auto
  then have g: "(suit, cards) \<in> set (groupBy Suit hand)" by (simp add: groupBy_set cards_def)
  have "take len (drop st (sortByNumber cards)) \<in> set (findConsecutiveRuns (sortByNumber cards))"
    unfolding findConsecutiveRuns_def
    using assms by (intro findRunsFrom_complete) (simp_all add: s)
  with g l show ?thesis
    unfolding generateRunMeldActions_def s by force
qed

lemma consecutiveFrom_sub:
  "consecutiveFrom s i L \<Longrightarrow> j + n \<le> L \<Longrightarrow> consecutiveFrom s (i + j) n"
  unfolding consecutiveFrom_iff
proof (intro allI impI)
  fix k assume h: "\<forall>k. k + 1 < L \<longrightarrow> Number (s ! (i + k + 1)) = Number (s ! (i + k)) + 1"
    "j + n \<le> L" "k + 1 < n"
  then have "(j + k) + 1 < L" by simp
  with h(1) have "Number (s ! (i + (j + k) + 1)) = Number (s ! (i + (j + k))) + 1" by blast
  then show "Number (s ! (i + j + k + 1)) = Number (s ! (i + j + k)) + 1" by (simp add: add.assoc)
qed


lemma strictly_sorted_block:
  fixes ns :: "int list"
  assumes "sorted ns" "distinct ns" and "\<forall>k<n. r + int k \<in> set ns" and "0 < n"
  shows "\<exists>i. i + n \<le> length ns \<and> (\<forall>k<n. ns ! (i + k) = r + int k)"
proof -
  have strict: "\<And>a b. a < b \<Longrightarrow> b < length ns \<Longrightarrow> ns ! a < ns ! b"
  proof -
    fix a b assume h: "a < b" "b < length ns"
    with assms(1) have "ns ! a \<le> ns ! b" by (simp add: sorted_iff_nth_mono)
    moreover from h assms(2) have "ns ! a \<noteq> ns ! b" by (simp add: nth_eq_iff_index_eq)
    ultimately show "ns ! a < ns ! b" by simp
  qed
  from assms(3,4) have "r + int 0 \<in> set ns" by blast
  then obtain i where i: "i < length ns" "ns ! i = r" by (auto simp: in_set_conv_nth)
  have step: "k < n \<Longrightarrow> i + k < length ns \<and> ns ! (i + k) = r + int k" for k
  proof (induction k)
    case 0
    with i show ?case by simp
  next
    case (Suc k)
    then have IH: "i + k < length ns" "ns ! (i + k) = r + int k" by simp_all
    from Suc.prems assms(3) have "r + int (Suc k) \<in> set ns" by blast
    then obtain m where m: "m < length ns" "ns ! m = r + int (Suc k)" by (auto simp: in_set_conv_nth)
    have "i + k < m"
    proof (rule ccontr)
      assume "\<not> i + k < m"
      then have "m \<le> i + k" by simp
      with assms(1) IH(1) have "ns ! m \<le> ns ! (i + k)" by (simp add: sorted_iff_nth_mono)
      with m IH show False by simp
    qed
    then have lt: "i + Suc k \<le> m" by simp
    with m have l: "i + Suc k < length ns" by simp
    have "ns ! (i + k) < ns ! (i + Suc k)" using strict [of "i + k" "i + Suc k"] l by simp
    moreover from lt assms(1) m(1) have "ns ! (i + Suc k) \<le> ns ! m" by (simp add: sorted_iff_nth_mono)
    ultimately have "ns ! (i + Suc k) = r + int (Suc k)" using IH m by simp
    with l show ?case by simp
  qed
  from assms(4) have "n - 1 < n" by simp
  from step [OF this] have "i + (n - 1) < length ns" by blast
  with assms(4) have "i + n \<le> length ns" by arith
  with step show ?thesis by blast
qed

lemma Card_eqI: "Number (c :: Card) = Number c' \<Longrightarrow> Suit c = Suit c' \<Longrightarrow> c = c'"
  by simp

lemma generateRunMeldActions_complete_distinct:
  assumes "distinct hand" "3 \<le> n"
    and "\<forall>k<n. \<lparr>Number = r + int k, Suit = suit\<rparr> \<in> set hand"
  shows "NewActionMeldCards (map (\<lambda>k. \<lparr>Number = r + int k, Suit = suit\<rparr>) [0..<n]) MeldTypeRun playerID
           \<in> set (generateRunMeldActions hand playerID)"
proof -
  define cards where "cards = filter (\<lambda>crd. Suit crd = suit) hand"
  define s where "s = suitCards suit hand"
  have s: "s = sortByNumber cards" by (simp add: s_def suitCards_def cards_def)
  have ms: "mset s = mset cards" by (simp add: s mset_sortByNumber)
  have set_s: "set s = set cards" by (simp add: s set_sortByNumber)
  from assms(1) have "distinct cards" by (simp add: cards_def)
  with mset_eq_imp_distinct_iff [OF ms] have ds: "distinct s" by blast
  have suit: "\<And>c. c \<in> set s \<Longrightarrow> Suit c = suit" by (simp add: set_s cards_def)
  have "inj_on Number (set s)"
    by (rule inj_onI) (simp add: Card_eqI suit)
  with ds have dn: "distinct (map Number s)" by (simp add: distinct_map)
  have sn: "sorted (map Number s)" by (simp add: s sorted_sortByNumber)
  have mem: "\<forall>k<n. r + int k \<in> set (map Number s)"
  proof (intro allI impI)
    fix k assume "k < n"
    with assms(3) have "\<lparr>Number = r + int k, Suit = suit\<rparr> \<in> set s"
      by (simp add: set_s cards_def)
    then have "Number \<lparr>Number = r + int k, Suit = suit\<rparr> \<in> Number ` set s" by (rule imageI)
    then show "r + int k \<in> set (map Number s)" by simp
  qed
  from assms(2) have "0 < n" by simp
  from strictly_sorted_block [OF sn dn mem this] obtain i where
    i: "i + n \<le> length s" "\<forall>k<n. map Number s ! (i + k) = r + int k" by auto
  have nth: "\<And>k. k < n \<Longrightarrow> s ! (i + k) = \<lparr>Number = r + int k, Suit = suit\<rparr>"
  proof -
    fix k assume k: "k < n"
    with i have l: "i + k < length s" by simp
    with i k have "Number (s ! (i + k)) = r + int k" by simp
    moreover from l have "Suit (s ! (i + k)) = suit" by (simp add: suit)
    ultimately show "s ! (i + k) = \<lparr>Number = r + int k, Suit = suit\<rparr>" by (intro Card_eqI) simp_all
  qed
  have eq: "take n (drop i s) = map (\<lambda>k. \<lparr>Number = r + int k, Suit = suit\<rparr>) [0..<n]"
    using i(1) by (intro nth_equalityI) (simp_all add: nth)
  have "consecutiveFrom s i n"
    unfolding consecutiveFrom_iff
  proof (intro allI impI)
    fix k assume "k + 1 < n"
    with nth [of k] nth [of "k + 1"] show "Number (s ! (i + k + 1)) = Number (s ! (i + k)) + 1"
      by (simp add: add.assoc)
  qed
  from generateRunMeldActions_complete [OF assms(2) i(1) [unfolded s_def] this [unfolded s_def]] eq
  show ?thesis by (simp add: s_def)
qed

subsection \<open>Validity and completeness of the candidates\<close>

text \<open>
  Claim C7. For every hand: every set candidate that the generator emits is a meld action
  of three cards of the hand that have the same number and pairwise distinct suits; every
  run candidate is a meld action of at least three cards of the hand, of one suit, whose
  numbers go up by one from each card to the next; and for every maximal run of length
  \<open>L \<ge> 3\<close> in the sorted cards of a suit, each of its contiguous sub-runs of a length \<open>n\<close>
  from 3 to \<open>L\<close> (starting \<open>j\<close> cards into the run) is emitted. The sorted cards of a suit
  are the cards of that suit in the hand, in ascending order of their numbers. In a hand
  that holds no card twice this amounts to: whenever the hand holds the cards of one suit
  with the numbers \<open>r, r + 1, ..., r + m - 1\<close> for some \<open>m \<ge> 3\<close>, the run of these cards is
  emitted. (A hand with a card twice, as 1, 2, 2, 3 of one suit, has the duplicate between
  the runs 1, 2 and 2, 3 of its sorted cards.)
\<close>

theorem generator_sound_and_complete:
  "(\<forall>action\<in>set (generateSetMeldActions hand playerID).
      \<exists>combo. action = NewActionMeldCards combo MeldTypeSet playerID \<and> length combo = 3 \<and>
        set combo \<subseteq> set hand \<and>
        (\<forall>c\<in>set combo. \<forall>c'\<in>set combo. Number c = Number c') \<and> distinct (map Suit combo)) \<and>
   (\<forall>action\<in>set (generateRunMeldActions hand playerID).
      \<exists>run. action = NewActionMeldCards run MeldTypeRun playerID \<and> 3 \<le> length run \<and>
        set run \<subseteq> set hand \<and> (\<forall>c\<in>set run. \<forall>c'\<in>set run. Suit c = Suit c') \<and>
        (\<forall>i. Suc i < length run \<longrightarrow> Number (run ! Suc i) = Number (run ! i) + 1)) \<and>
   (maximalRun (suitCards suit hand) i L \<and> 3 \<le> L \<and> 3 \<le> n \<and> j + n \<le> L \<longrightarrow>
      NewActionMeldCards (take n (drop (i + j) (suitCards suit hand))) MeldTypeRun playerID
        \<in> set (generateRunMeldActions hand playerID)) \<and>
   sorted (map Number (suitCards suit hand)) \<and>
   mset (suitCards suit hand) = mset (filter (\<lambda>crd. Suit crd = suit) hand) \<and>
   (distinct hand \<and> 3 \<le> m \<and> (\<forall>k<m. \<lparr>Number = r + int k, Suit = suit\<rparr> \<in> set hand) \<longrightarrow>
      NewActionMeldCards (map (\<lambda>k. \<lparr>Number = r + int k, Suit = suit\<rparr>) [0..<m]) MeldTypeRun playerID
        \<in> set (generateRunMeldActions hand playerID))"
proof (intro conjI)
  show "\<forall>action\<in>set (generateSetMeldActions hand playerID).
      \<exists>combo. action = NewActionMeldCards combo MeldTypeSet playerID \<and> length combo = 3 \<and>
        set combo \<subseteq> set hand \<and>
        (\<forall>c\<in>set combo. \<forall>c'\<in>set combo. Number c = Number c') \<and> distinct (map Suit combo)"
    by (intro ballI generateSetMeldActions_sound)
  show "\<forall>action\<in>set (generateRunMeldActions hand playerID).
      \<exists>run. action = NewActionMeldCards run MeldTypeRun playerID \<and> 3 \<le> length run \<and>
        set run \<subseteq> set hand \<and> (\<forall>c\<in>set run. \<forall>c'\<in>set run. Suit c = Suit c') \<and>
        (\<forall>i. Suc i < length run \<longrightarrow> Number (run ! Suc i) = Number (run ! i) + 1)"
    by (intro ballI generateRunMeldActions_sound)
  show "maximalRun (suitCards suit hand) i L \<and> 3 \<le> L \<and> 3 \<le> n \<and> j + n \<le> L \<longrightarrow>
      NewActionMeldCards (take n (drop (i + j) (suitCards suit hand))) MeldTypeRun playerID
        \<in> set (generateRunMeldActions hand playerID)"
  proof
    assume h: "maximalRun (suitCards suit hand) i L \<and> 3 \<le> L \<and> 3 \<le> n \<and> j + n \<le> L"
    then have c: "consecutiveFrom (suitCards suit hand) (i + j) n"
      and l: "(i + j) + n \<le> length (suitCards suit hand)"
      by (auto simp: maximalRun_def intro: consecutiveFrom_sub)
    from h generateRunMeldActions_complete [OF _ l c] show
      "NewActionMeldCards (take n (drop (i + j) (suitCards suit hand))) MeldTypeRun playerID
        \<in> set (generateRunMeldActions hand playerID)" by blast
  qed
  show "sorted (map Number (suitCards suit hand))"
    by (simp add: suitCards_def sorted_sortByNumber)
  show "mset (suitCards suit hand) = mset (filter (\<lambda>crd. Suit crd = suit) hand)"
    by (simp add: suitCards_def mset_sortByNumber)
  show "distinct hand \<and> 3 \<le> m \<and> (\<forall>k<m. \<lparr>Number = r + int k, Suit = suit\<rparr> \<in> set hand) \<longrightarrow>
      NewActionMeldCards (map (\<lambda>k. \<lparr>Number = r + int k, Suit = suit\<rparr>) [0..<m]) MeldTypeRun playerID
        \<in> set (generateRunMeldActions hand playerID)"
    by (blast intro: generateRunMeldActions_complete_distinct)
qed

theorem generator_sound_and_complete_witness:
  "NewActionMeldCards (map (\<lambda>suit. \<lparr>Number = 3, Suit = suit\<rparr>) [''oro'', ''copa'', ''basto''])
       MeldTypeSet 0 \<in> set (generateSetMeldActions exampleHand 0) \<and>
   suitCards ''oro'' exampleHand = map (\<lambda>n. \<lparr>Number = n, Suit = ''oro''\<rparr>) [1, 2, 3, 4, 6] \<and>
   maximalRun (suitCards ''oro'' exampleHand) 0 4 \<and>
   NewActionMeldCards (map (\<lambda>n. \<lparr>Number = n, Suit = ''oro''\<rparr>) [2, 3, 4]) MeldTypeRun 0
     \<in> set (generateRunMeldActions exampleHand 0) \<and>
   NewActionMeldCards (map (\<lambda>n. \<lparr>Number = n, Suit = ''oro''\<rparr>) [1, 2, 3, 4]) MeldTypeRun 0
     \<in> set (generateRunMeldActions exampleHand 0) \<and>
   length (generateSetMeldActions exampleHand 0) = 1 \<and>
   length (generateRunMeldActions exampleHand 0) = 3"
proof -
  let ?set = "NewActionMeldCards (map (\<lambda>suit. \<lparr>Number = 3, Suit = suit\<rparr>) [''oro'', ''copa'', ''basto''])
       MeldTypeSet 0"
  have s: "suitCards ''oro'' exampleHand = map (\<lambda>n. \<lparr>Number = n, Suit = ''oro''\<rparr>) [1, 2, 3, 4, 6]"
    by code_simp
  have m: "maximalRun (suitCards ''oro'' exampleHand) 0 4"
    by code_simp
  have sets: "generateSetMeldActions exampleHand 0 = [?set]"
    by code_simp
  have n: "length (generateRunMeldActions exampleHand 0) = 3"
    by code_simp
  have d: "distinct exampleHand"
    by code_simp
  have h: "\<forall>k<4. \<lparr>Number = 1 + int k, Suit = ''oro''\<rparr> \<in> set exampleHand"
  proof (intro allI impI)
    fix k :: nat assume "k < 4"
    then have "k = 0 \<or> k = 1 \<or> k = 2 \<or> k = 3" by auto
    then show "\<lparr>Number = 1 + int k, Suit = ''oro''\<rparr> \<in> set exampleHand"
      by (auto simp: exampleHand_def)
  qed
  have e: "map (\<lambda>k. \<lparr>Number = 1 + int k, Suit = ''oro''\<rparr>) [0..<4] =
           map (\<lambda>n. \<lparr>Number = n, Suit = ''oro''\<rparr>) [1, 2, 3, 4]"
    by (simp add: upt_rec)
  note t = generator_sound_and_complete
             [where hand = exampleHand and playerID = 0 and suit = "''oro''" and i = 0 and L = 4
                and n = 3 and j = 1 and m = 4 and r = 1]
  from t sets have "\<exists>combo. ?set = NewActionMeldCards combo MeldTypeSet 0 \<and> length combo = 3"
    by auto
  moreover from t m have "NewActionMeldCards (take 3 (drop (0 + 1) (suitCards ''oro'' exampleHand)))
      MeldTypeRun 0 \<in> set (generateRunMeldActions exampleHand 0)"
    by simp
  moreover from t d h have "NewActionMeldCards (map (\<lambda>k. \<lparr>Number = 1 + int k, Suit = ''oro''\<rparr>) [0..<4])
      MeldTypeRun 0 \<in> set (generateRunMeldActions exampleHand 0)"
    by simp
  ultimately show ?thesis
    using s m sets n e by simp
qed

section \<open>Properties of the action codec\<close>

lemmas action_names = DRAW_FROM_DRAW_PILE_def DRAW_FROM_DISCARD_PILE_def DISCARD_CARD_def
  MELD_CARDS_def KNOCK_def CONFIRM_ROUND_FINISHED_def

lemma valid_coerceUTF8: "validUTF8 s \<Longrightarrow> coerceUTF8 s = s"
proof (induction s rule: validUTF8.induct)
  case (1 s)
  show ?case
  proof (cases "s = []")
    case True
    then show ?thesis by (subst coerceUTF8.simps) simp
  next
    case False
    with "1.prems" obtain n where n: "runeSize s = Some n" and v: "validUTF8 (drop n s)"
      by (subst (asm) validUTF8.simps) (auto split: option.splits)
    from "1.IH" [OF False n v] have "coerceUTF8 (drop n s) = drop n s" .
    with False n show ?thesis by (subst coerceUTF8.simps) simp
  qed
qed

lemma ascii_coerceUTF8: "\<forall>c\<in>set (coerceUTF8 s). byte c < 0x80 \<Longrightarrow> coerceUTF8 s = s"
proof (induction s rule: coerceUTF8.induct)
  case (1 s)
  show ?case
  proof (cases "s = []")
    case True
    then show ?thesis by (subst coerceUTF8.simps) simp
  next
    case False
    show ?thesis
    proof (cases "runeSize s")
      case None
      with False have "coerceUTF8 s = replacementChar @ coerceUTF8 (drop 1 s)"
        by (subst coerceUTF8.simps) simp
      with "1.prems" have "byte (CHR 0xEF) < 0x80"
        by (simp add: replacementChar_def)
      then show ?thesis by (simp add: byte_def)
    next
      case (Some n)
      with False have e: "coerceUTF8 s = take n s @ coerceUTF8 (drop n s)"
        by (subst coerceUTF8.simps) simp
      with "1.prems" have "\<forall>c\<in>set (coerceUTF8 (drop n s)). byte c < 0x80" by simp
      from "1.IH"(2) [OF False Some this] e show ?thesis by simp
    qed
  qed
qed

lemma coerce_names:
  "coerceUTF8 DRAW_FROM_DRAW_PILE = DRAW_FROM_DRAW_PILE"
  "coerceUTF8 DRAW_FROM_DISCARD_PILE = DRAW_FROM_DISCARD_PILE"
  "coerceUTF8 DISCARD_CARD = DISCARD_CARD"
  "coerceUTF8 MELD_CARDS = MELD_CARDS"
  "coerceUTF8 KNOCK = KNOCK"
  "coerceUTF8 CONFIRM_ROUND_FINISHED = CONFIRM_ROUND_FINISHED"
  by code_simp+

lemmas coerce_literals = coerce_names [unfolded action_names]

lemma ascii_names: "name \<in> actionNames \<Longrightarrow> \<forall>c\<in>set name. byte c < 0x80"
  by (auto simp: actionNames_def action_names byte_def)

lemma coerce_unknown: "name \<notin> actionNames \<Longrightarrow> coerceUTF8 name \<notin> actionNames"
  using ascii_names [of "coerceUTF8 name"] ascii_coerceUTF8 [of name] by auto

lemma folded_names [simp]:
  "foldName ''name'' = ''NAME''" "foldName ''playerID'' = ''PLAYERID''"
  "foldName ''card'' = ''CARD''" "foldName ''cards'' = ''CARDS''"
  "foldName ''meldType'' = ''MELDTYPE''" "foldName ''number'' = ''NUMBER''"
  "foldName ''suit'' = ''SUIT''"
  by code_simp+

lemma decode_members_append:
  "decode_members field (kvs @ kvs') v = bind_err (decode_members field kvs v) (decode_members field kvs')"
  by (induction kvs arbitrary: v) (auto simp: bind_err_def split: sum.splits)

lemma decode_members_no_name:
  "\<forall>(key, j)\<in>set kvs. foldName key \<noteq> foldName ''name'' \<Longrightarrow>
   decode_members actionName_field kvs v = Inr v"
  by (induction kvs arbitrary: v) (auto simp: bind_err_def actionName_field_def)

lemma decode_marshal_Card:
  "isInt (Number crd) \<Longrightarrow> validUTF8 (Suit crd) \<Longrightarrow>
   decode_struct Card_field (marshal_Card crd) cur = Inr crd"
  by (simp add: decode_struct_def marshal_Card_def Card_field_def bind_err_def decode_int_def
      decode_string_def marshal_string_def valid_coerceUTF8)

lemma decode_marshal_Cards:
  "\<forall>crd\<in>set cards. isInt (Number crd) \<and> validUTF8 (Suit crd) \<Longrightarrow>
   decode_elements (map marshal_Card cards) arr = Inr (cards @ drop (length cards) arr)"
proof (induction cards arbitrary: arr)
  case Nil
  then show ?case by simp
next
  case (Cons crd cards)
  then show ?case
    by (cases arr) (simp_all add: decode_marshal_Card bind_err_def drop_Suc)
qed

lemma decode_marshal_act:
  "isInt (PlayerID a) \<Longrightarrow> coerceUTF8 (Name a) = Name a \<Longrightarrow>
   decode_members act_field (marshal_act a) cur = Inr a"
  by (simp add: marshal_act_def act_field_def bind_err_def decode_int_def
      decode_string_def marshal_string_def)

lemma name_marshal_act:
  "coerceUTF8 (Name a) = Name a \<Longrightarrow>
   decode_members actionName_field (marshal_act a @ kvs) [] =
     decode_members actionName_field kvs (Name a)"
  by (simp add: marshal_act_def actionName_field_def bind_err_def
      decode_string_def marshal_string_def)

text \<open>
  Claim C9, as amended. For each of the six constructors, deserializing the serialization
  of the action it builds succeeds and gives back that action (the same variant, name,
  player id and variant fields), provided the strings of the action (the suits of its
  cards and the meld type) are well-formed UTF-8; the numbers of the action are
  \<^verbatim>\<open>int\<close>s. A meld action with a nil slice of cards, which is written as \<^verbatim>\<open>null\<close>, comes
  back with no cards. And a serialized record whose name tag is a string, none of the six
  action names, makes \<^verbatim>\<open>DeserializeAction\<close> fail with the unknown-action error: whenever the name
  that the first pass reads is none of the six, and so for every object that has one
  member for the field \<^verbatim>\<open>name\<close> (under a name that folds to it), a string that is none of
  the six, whatever its other members are.
\<close>

theorem codec_roundtrip_and_unknown_name:
  "(isInt playerID \<longrightarrow>
      DeserializeAction (SerializeAction (NewActionDrawFromDrawPile playerID)) =
        Inr (NewActionDrawFromDrawPile playerID) \<and>
      DeserializeAction (SerializeAction (NewActionDrawFromDiscardPile playerID)) =
        Inr (NewActionDrawFromDiscardPile playerID) \<and>
      DeserializeAction (SerializeAction (NewActionKnock playerID)) =
        Inr (NewActionKnock playerID) \<and>
      DeserializeAction (SerializeAction (NewActionConfirmRoundFinished playerID)) =
        Inr (NewActionConfirmRoundFinished playerID)) \<and>
   (isInt playerID \<and> isInt (Number crd) \<and> validUTF8 (Suit crd) \<longrightarrow>
      DeserializeAction (SerializeAction (NewActionDiscardCard crd playerID)) =
        Inr (NewActionDiscardCard crd playerID)) \<and>
   (isInt playerID \<and> (\<forall>c\<in>set cards. isInt (Number c) \<and> validUTF8 (Suit c)) \<and>
    validUTF8 meldType \<longrightarrow>
      DeserializeAction (SerializeAction (NewActionMeldCards cards meldType playerID)) =
        Inr (NewActionMeldCards cards meldType playerID)) \<and>
   (isInt playerID \<and> validUTF8 meldType \<longrightarrow>
      DeserializeAction
        (JObject (marshal_act \<lparr>Name = MELD_CARDS, PlayerID = playerID\<rparr> @
           [(''cards'', JNull), (''meldType'', marshal_string meldType)])) =
        Inr (NewActionMeldCards [] meldType playerID)) \<and>
   (unmarshal_actionName bs = Inr name \<and> name \<notin> actionNames \<longrightarrow>
      DeserializeAction bs = Inl errUnknownAction) \<and>
   ((\<forall>(key', j)\<in>set (before @ after). foldName key' \<noteq> foldName ''name'') \<and>
    foldName key = foldName ''name'' \<and> tag \<notin> actionNames \<longrightarrow>
      DeserializeAction (JObject (before @ [(key, JString tag)] @ after)) = Inl errUnknownAction)"
proof -
  have plain: "DeserializeAction (JObject (marshal_act a)) = Inr (mk a)"
    if "isInt (PlayerID a)" and "Name a = n" and "coerceUTF8 n = n"
      and "\<And>bs. unmarshal_actionName bs = Inr n \<Longrightarrow>
             DeserializeAction bs = bind_err (decode_struct act_field bs zeroAct) (\<lambda>a. Inr (mk a))"
    for a n mk
  proof -
    from that have "unmarshal_actionName (JObject (marshal_act a)) = Inr n"
      using name_marshal_act [of a "[]"] by (simp add: unmarshal_actionName_def decode_struct_def)
    from that(4) [OF this] that(1-3) show ?thesis
      by (simp add: decode_struct_def decode_marshal_act bind_err_def)
  qed
  have sel: "unmarshal_actionName bs' = Inr n \<Longrightarrow> DeserializeAction bs' = f n bs'"
    if "\<And>n. f n bs' = (if n = DRAW_FROM_DRAW_PILE then
         bind_err (decode_struct act_field bs' zeroAct) (\<lambda>a. Inr (ActionDrawFromDrawPile a))
       else if n = DRAW_FROM_DISCARD_PILE then
         bind_err (decode_struct act_field bs' zeroAct) (\<lambda>a. Inr (ActionDrawFromDiscardPile a))
       else if n = DISCARD_CARD then
         bind_err (decode_struct ActionDiscardCard_field bs' (zeroAct, zeroCard)) (\<lambda>(a, crd).
           Inr (ActionDiscardCard a crd))
       else if n = MELD_CARDS then
         bind_err (decode_struct ActionMeldCards_field bs' (zeroAct, ([], 0), []))
           (\<lambda>(a, (arr, n), meldType). Inr (ActionMeldCards a (take n arr) meldType))
       else if n = KNOCK then
         bind_err (decode_struct act_field bs' zeroAct) (\<lambda>a. Inr (ActionKnock a))
       else if n = CONFIRM_ROUND_FINISHED then
         bind_err (decode_struct act_field bs' zeroAct) (\<lambda>a. Inr (ActionConfirmRoundFinished a))
       else Inl errUnknownAction)" for bs' n f
    using that by (simp add: DeserializeAction_def bind_err_def)
  have c1: "DeserializeAction (SerializeAction (NewActionDrawFromDrawPile playerID)) =
        Inr (NewActionDrawFromDrawPile playerID)" if "isInt playerID"
    unfolding NewActionDrawFromDrawPile_def SerializeAction.simps
    by (rule plain [where n = DRAW_FROM_DRAW_PILE])
      (use that in \<open>simp_all add: coerce_names DeserializeAction_def bind_err_def\<close>)
  have c2: "DeserializeAction (SerializeAction (NewActionDrawFromDiscardPile playerID)) =
        Inr (NewActionDrawFromDiscardPile playerID)" if "isInt playerID"
    unfolding NewActionDrawFromDiscardPile_def SerializeAction.simps
    by (rule plain [where n = DRAW_FROM_DISCARD_PILE])
      (use that in \<open>simp_all add: coerce_literals DeserializeAction_def bind_err_def action_names\<close>)
  have c3: "DeserializeAction (SerializeAction (NewActionKnock playerID)) =
        Inr (NewActionKnock playerID)" if "isInt playerID"
    unfolding NewActionKnock_def SerializeAction.simps
    by (rule plain [where n = KNOCK])
      (use that in \<open>simp_all add: coerce_literals DeserializeAction_def bind_err_def action_names\<close>)
  have c4: "DeserializeAction (SerializeAction (NewActionConfirmRoundFinished playerID)) =
        Inr (NewActionConfirmRoundFinished playerID)" if "isInt playerID"
    unfolding NewActionConfirmRoundFinished_def SerializeAction.simps
    by (rule plain [where n = CONFIRM_ROUND_FINISHED])
      (use that in \<open>simp_all add: coerce_literals DeserializeAction_def bind_err_def action_names\<close>)
  have c5: "DeserializeAction (SerializeAction (NewActionDiscardCard crd playerID)) =
        Inr (NewActionDiscardCard crd playerID)"
    if "isInt playerID \<and> isInt (Number crd) \<and> validUTF8 (Suit crd)"
  proof -
    let ?a = "\<lparr>Name = DISCARD_CARD, PlayerID = playerID\<rparr>"
    let ?bs = "JObject (marshal_act ?a @ [(''card'', marshal_Card crd)])"
    have n: "unmarshal_actionName ?bs = Inr DISCARD_CARD"
      using name_marshal_act [of ?a "[(''card'', marshal_Card crd)]"]
      by (simp add: unmarshal_actionName_def decode_struct_def coerce_names
          actionName_field_def bind_err_def)
    have "decode_struct ActionDiscardCard_field ?bs (zeroAct, zeroCard) = Inr (?a, crd)"
      using that
      by (simp add: decode_struct_def marshal_act_def ActionDiscardCard_field_def act_field_def
          bind_err_def decode_string_def decode_int_def marshal_string_def coerce_names
          decode_marshal_Card [unfolded decode_struct_def] zeroAct_def)
    with n show ?thesis
      by (simp add: DeserializeAction_def NewActionDiscardCard_def bind_err_def action_names)
  qed
  have c6: "DeserializeAction (SerializeAction (NewActionMeldCards cards meldType playerID)) =
        Inr (NewActionMeldCards cards meldType playerID)"
    if h: "isInt playerID \<and> (\<forall>c\<in>set cards. isInt (Number c) \<and> validUTF8 (Suit c)) \<and>
           validUTF8 meldType"
  proof -
    let ?a = "\<lparr>Name = MELD_CARDS, PlayerID = playerID\<rparr>"
    let ?rest = "[(''cards'', JArray (map marshal_Card cards)), (''meldType'', marshal_string meldType)]"
    let ?bs = "JObject (marshal_act ?a @ ?rest)"
    have n: "unmarshal_actionName ?bs = Inr MELD_CARDS"
      using name_marshal_act [of ?a ?rest]
      by (simp add: unmarshal_actionName_def decode_struct_def coerce_names
          actionName_field_def bind_err_def)
    from h have cs: "decode_Cards (JArray (map marshal_Card cards)) ([], 0) = Inr (cards, length cards)"
      by (cases "cards = []") (simp_all add: decode_Cards_def decode_marshal_Cards bind_err_def)
    have "decode_struct ActionMeldCards_field ?bs (zeroAct, ([], 0), []) =
            Inr (?a, (cards, length cards), meldType)"
      using h
      by (simp add: decode_struct_def marshal_act_def ActionMeldCards_field_def act_field_def
          bind_err_def decode_string_def decode_int_def marshal_string_def coerce_names
          cs valid_coerceUTF8 zeroAct_def)
    with n show ?thesis
      by (simp add: DeserializeAction_def NewActionMeldCards_def bind_err_def action_names)
  qed
  have c7: "DeserializeAction
        (JObject (marshal_act \<lparr>Name = MELD_CARDS, PlayerID = playerID\<rparr> @
           [(''cards'', JNull), (''meldType'', marshal_string meldType)])) =
        Inr (NewActionMeldCards [] meldType playerID)"
    if h: "isInt playerID \<and> validUTF8 meldType"
  proof -
    let ?a = "\<lparr>Name = MELD_CARDS, PlayerID = playerID\<rparr>"
    let ?rest = "[(''cards'', JNull), (''meldType'', marshal_string meldType)]"
    let ?bs = "JObject (marshal_act ?a @ ?rest)"
    have n: "unmarshal_actionName ?bs = Inr MELD_CARDS"
      using name_marshal_act [of ?a ?rest]
      by (simp add: unmarshal_actionName_def decode_struct_def coerce_names
          actionName_field_def bind_err_def)
    have "decode_struct ActionMeldCards_field ?bs (zeroAct, ([], 0), []) =
            Inr (?a, ([], 0), meldType)"
      using h
      by (simp add: decode_struct_def marshal_act_def ActionMeldCards_field_def act_field_def
          bind_err_def decode_string_def decode_int_def marshal_string_def coerce_names
          decode_Cards_def valid_coerceUTF8 zeroAct_def)
    with n show ?thesis
      by (simp add: DeserializeAction_def NewActionMeldCards_def bind_err_def action_names)
  qed
  have u1: "DeserializeAction bs = Inl errUnknownAction"
    if "unmarshal_actionName bs = Inr name \<and> name \<notin> actionNames"
    using that by (simp add: DeserializeAction_def bind_err_def actionNames_def)
  have u2: "DeserializeAction (JObject (before @ [(key, JString tag)] @ after)) = Inl errUnknownAction"
    if h: "(\<forall>(key', j)\<in>set (before @ after). foldName key' \<noteq> foldName ''name'') \<and>
           foldName key = foldName ''name'' \<and> tag \<notin> actionNames"
  proof -
    from h have b: "\<forall>(key', j)\<in>set before. foldName key' \<noteq> foldName ''name''"
      and a: "\<forall>(key', j)\<in>set after. foldName key' \<noteq> foldName ''name''"
      by auto
    have "unmarshal_actionName (JObject (before @ [(key, JString tag)] @ after)) =
            Inr (coerceUTF8 tag)"
      using h
      by (simp add: unmarshal_actionName_def decode_struct_def decode_members_append
          decode_members_no_name [OF b] decode_members_no_name [OF a] bind_err_def
          actionName_field_def decode_string_def)
    with coerce_unknown [of tag] h show ?thesis
      by (simp add: DeserializeAction_def bind_err_def actionNames_def)
  qed
  from c1 c2 c3 c4 c5 c6 c7 u1 u2 show ?thesis by blast
qed

theorem codec_roundtrip_and_unknown_name_witness:
  "DeserializeAction (SerializeAction (NewActionKnock 1)) = Inr (NewActionKnock 1) \<and>
   DeserializeAction (SerializeAction (NewActionDiscardCard \<lparr>Number = 7, Suit = ''oro''\<rparr> 1)) =
     Inr (NewActionDiscardCard \<lparr>Number = 7, Suit = ''oro''\<rparr> 1) \<and>
   DeserializeAction (SerializeAction (NewActionMeldCards (Cards (runOf ''copa'' 4)) MeldTypeRun 0)) =
     Inr (NewActionMeldCards (Cards (runOf ''copa'' 4)) MeldTypeRun 0) \<and>
   DeserializeAction
     (JObject (marshal_act \<lparr>Name = MELD_CARDS, PlayerID = 1\<rparr> @
        [(''cards'', JNull), (''meldType'', marshal_string MeldTypeRun)])) =
     Inr (NewActionMeldCards [] MeldTypeRun 1) \<and>
   unmarshal_actionName (JObject [(''name'', JString ''shuffle''), (''playerID'', JNumber 0)]) =
     Inr ''shuffle'' \<and>
   DeserializeAction (JObject [(''name'', JString ''shuffle''), (''playerID'', JNumber 0)]) =
     Inl errUnknownAction \<and>
   DeserializeAction (JObject [(''playerID'', JNumber 0), (''Name'', JString ''shuffle''),
                               (''card'', JNull)]) =
     Inl errUnknownAction"
proof -
  let ?crd = "\<lparr>Number = 7, Suit = ''oro''\<rparr>"
  let ?cards = "Cards (runOf ''copa'' 4)"
  let ?bs = "JObject [(''name'', JString ''shuffle''), (''playerID'', JNumber 0)]"
  have i: "isInt 1" "isInt 0" "isInt (Number ?crd)"
    by (simp_all add: isInt_def)
  have v: "validUTF8 (Suit ?crd)" "validUTF8 MeldTypeRun"
    by code_simp+
  have cs: "\<forall>c\<in>set ?cards. isInt (Number c) \<and> validUTF8 (Suit c)"
    by code_simp
  have n: "unmarshal_actionName ?bs = Inr ''shuffle''"
    by code_simp
  have u: "''shuffle'' \<notin> actionNames"
    by (simp add: actionNames_def action_names)
  have o: "\<forall>(key', j)\<in>set ([(''playerID'', JNumber 0)] @ [(''card'', JNull)]).
             foldName key' \<noteq> foldName ''name''"
    by code_simp
  have f: "foldName ''Name'' = foldName ''name''"
    by code_simp
  from codec_roundtrip_and_unknown_name
         [where playerID = 1 and crd = ?crd and cards = "[]" and meldType = MeldTypeRun
            and bs = ?bs and name = "''shuffle''" and before = "[(''playerID'', JNumber 0)]"
            and after = "[(''card'', JNull)]" and key = "''Name''" and tag = "''shuffle''"]
       codec_roundtrip_and_unknown_name
         [where playerID = 0 and crd = ?crd and cards = ?cards and meldType = MeldTypeRun
            and bs = ?bs and name = "''shuffle''" and before = "[(''playerID'', JNumber 0)]"
            and after = "[(''card'', JNull)]" and key = "''Name''" and tag = "''shuffle''"]
       i v cs n u o f
  show ?thesis by simp
qed

text \<open>
  The claim C9 as stated does not hold: \<^verbatim>\<open>json.Marshal\<close> replaces a byte that is not part of
  well-formed UTF-8 by U+FFFD, so a meld type or a suit with such a byte does not come
  back. The meld action whose meld type is the single byte \<^verbatim>\<open>0xFF\<close> and the discard
  of a card with that suit are deserialized with the three bytes of U+FFFD in its place.
  And a record whose name tag is not a string, as the number 5, fails in the first
  \<^verbatim>\<open>json.Unmarshal\<close> with the error of the library, not with the unknown-action error.
\<close>

theorem codec_roundtrip_and_unknown_name_counterexample:
  "DeserializeAction (SerializeAction (NewActionMeldCards (Cards (runOf ''copa'' 4)) [CHR 0xFF] 0)) =
     Inr (NewActionMeldCards (Cards (runOf ''copa'' 4)) [CHR 0xEF, CHR 0xBF, CHR 0xBD] 0) \<and>
   NewActionMeldCards (Cards (runOf ''copa'' 4)) [CHR 0xEF, CHR 0xBF, CHR 0xBD] 0 \<noteq>
     NewActionMeldCards (Cards (runOf ''copa'' 4)) [CHR 0xFF] 0 \<and>
   DeserializeAction (SerializeAction (NewActionDiscardCard \<lparr>Number = 7, Suit = [CHR 0xFF]\<rparr> 1)) =
     Inr (NewActionDiscardCard \<lparr>Number = 7, Suit = [CHR 0xEF, CHR 0xBF, CHR 0xBD]\<rparr> 1) \<and>
   NewActionDiscardCard \<lparr>Number = 7, Suit = [CHR 0xEF, CHR 0xBF, CHR 0xBD]\<rparr> 1 \<noteq>
     NewActionDiscardCard \<lparr>Number = 7, Suit = [CHR 0xFF]\<rparr> 1 \<and>
   DeserializeAction (JObject [(''name'', JNumber 5), (''playerID'', JNumber 0)]) =
     Inl errUnmarshal"
  by code_simp

end
